theory Spec2Isabelle
  imports Complex_Main "HOL-Library.Multiset"
begin

section \<open>JavaScript values\<close>

text \<open>
  A JavaScript number: a finite value, an infinity, or NaN. Finite values are kept exact,
  as rationals: the sums and counts of the detector are integers far below \<open>2^53\<close>, and
  the rounding of a division or of the factor \<open>0.01\<close> is not modelled, nor is the sign
  of zero.
\<close>

datatype jsnum = Num rat | PosInf | NegInf | NaN

text \<open>\<open>a / b\<close> for two non-negative integers: \<open>0 / 0\<close> is NaN and \<open>a / 0\<close> is Infinity.\<close>

definition jsdiv :: "nat \<Rightarrow> nat \<Rightarrow> jsnum" where
  "jsdiv a b = (if b = 0 then (if a = 0 then NaN else PosInf) else Num (of_nat a / of_nat b))"

text \<open>\<open>v > c\<close> for a finite constant \<open>c\<close>: false on NaN, true on Infinity.\<close>

fun jsgt :: "jsnum \<Rightarrow> rat \<Rightarrow> bool" where
  "jsgt (Num a) c = (a > c)"
| "jsgt PosInf c = True"
| "jsgt NegInf c = False"
| "jsgt NaN c = False"

text \<open>Unary minus, and the product with a finite constant.\<close>

fun jsneg :: "jsnum \<Rightarrow> jsnum" where
  "jsneg (Num a) = Num (- a)"
| "jsneg PosInf = NegInf"
| "jsneg NegInf = PosInf"
| "jsneg NaN = NaN"

fun jsmul :: "jsnum \<Rightarrow> rat \<Rightarrow> jsnum" where
  "jsmul (Num a) c = Num (a * c)"
| "jsmul PosInf c = (if c > 0 then PosInf else if c < 0 then NegInf else NaN)"
| "jsmul NegInf c = (if c > 0 then NegInf else if c < 0 then PosInf else NaN)"
| "jsmul NaN c = NaN"

text \<open>
  \<open>v[k]\<close> on an array of numbers, where the value is used in arithmetic: past the end it
  is \<open>undefined\<close>, which arithmetic turns into NaN.
\<close>

definition jsIndex :: "jsnum list \<Rightarrow> nat \<Rightarrow> jsnum" where
  "jsIndex v k = (if k < length v then v ! k else NaN)"

text \<open>
  A \<open>Uint8ClampedArray\<close> is a list of numbers. Reading past the end gives \<open>undefined\<close>
  (here \<open>None\<close>), which is falsy and for which every comparison is false; writing past
  the end is ignored, which is what \<open>xs[i := v]\<close> does.
\<close>

definition u8get :: "nat list \<Rightarrow> nat \<Rightarrow> nat option" where
  "u8get a i = (if i < length a then Some (a ! i) else None)"

definition truthy :: "nat list \<Rightarrow> nat \<Rightarrow> bool" where
  "truthy a i = (case u8get a i of None \<Rightarrow> False | Some v \<Rightarrow> v \<noteq> 0)"

definition gtU :: "nat option \<Rightarrow> nat \<Rightarrow> bool" where
  "gtU v c = (case v of None \<Rightarrow> False | Some x \<Rightarrow> x > c)"

definition ltU :: "nat option \<Rightarrow> nat \<Rightarrow> bool" where
  "ltU v c = (case v of None \<Rightarrow> False | Some x \<Rightarrow> x < c)"

section \<open>The detector (src/src/detector.js)\<close>

record imageData =
  data :: "nat list"
  width :: nat
  height :: nat

text \<open>The marker-colour test of both variants: \<open>r > 200 && g < 100 && b < 100\<close> at offset \<open>i\<close>.\<close>

definition isRedAt :: "nat list \<Rightarrow> nat \<Rightarrow> bool" where
  "isRedAt d i = (gtU (u8get d i) 200 \<and> ltU (u8get d (i + 1)) 100 \<and> ltU (u8get d (i + 2)) 100)"

subsection \<open>The single-ratio variant\<close>

text \<open>The counting loop \<open>for (let i = 0; i < data.length; i += 4)\<close>.\<close>

function countRed :: "nat list \<Rightarrow> nat \<Rightarrow> nat \<Rightarrow> nat" where
  "countRed d i redCount =
     (if i < length d then countRed d (i + 4) (if isRedAt d i then redCount + 1 else redCount)
      else redCount)"
  by pat_completeness auto
termination
  by (relation "measure (\<lambda>(d, i, c). length d - i)") auto

declare countRed.simps [simp del]

datatype ratioResult = NotFound | Found "jsnum list" "jsnum list"

fun found :: "ratioResult \<Rightarrow> bool" where
  "found NotFound = False"
| "found (Found rvec tvec) = True"

text \<open>
  \<open>detect\<close> of the first variant, from the frame the canvas hands back (the canvas
  calls that produce it are outside the model); \<open>ready\<close> is
  \<open>videoElement.readyState === HAVE_ENOUGH_DATA\<close>. The threshold \<open>0.01\<close> is the
  rational 1/100.
\<close>

definition detectRatio :: "bool \<Rightarrow> imageData \<Rightarrow> ratioResult" where
  "detectRatio ready img =
     (if \<not> ready then NotFound
      else let redCount = countRed (data img) 0 0;
               totalPixels = width img * height img;
               redRatio = jsdiv redCount totalPixels
           in if jsgt redRatio (1 / 100)
              then Found [Num 0, Num 0, Num 0] [Num 0, Num 0, Num 1]
              else NotFound)"

subsection \<open>The multi-cluster variant\<close>

text \<open>The loop that fills \<open>redMap\<close>: \<open>redMap[i / 4] = 1\<close> for every red pixel.\<close>

function buildRedMap :: "nat list \<Rightarrow> nat \<Rightarrow> nat list \<Rightarrow> nat list" where
  "buildRedMap d i redMap =
     (if i < length d
      then buildRedMap d (i + 4) (if isRedAt d i then redMap[i div 4 := 1] else redMap)
      else redMap)"
  by pat_completeness auto
termination
  by (relation "measure (\<lambda>(d, i, m). length d - i)") auto

declare buildRedMap.simps [simp del]

record cluster =
  pixels :: "nat list"
  centerX :: jsnum
  centerY :: jsnum

text \<open>
  The four neighbour indices of \<open>floodFill\<close>, in the source's order, and the test
  \<open>nIdx >= 0 && nIdx < width * height && redMap[nIdx] && !visited[nIdx]\<close>.
\<close>

definition neighbors :: "nat \<Rightarrow> nat \<Rightarrow> int list" where
  "neighbors idx w = [int idx - 1, int idx + 1, int idx - int w, int idx + int w]"

definition pushable :: "nat \<Rightarrow> nat \<Rightarrow> nat list \<Rightarrow> nat list \<Rightarrow> int \<Rightarrow> bool" where
  "pushable w h redMap visited nIdx =
     (nIdx \<ge> 0 \<and> nIdx < int (w * h) \<and> truthy redMap (nat nIdx) \<and> \<not> truthy visited (nat nIdx))"

text \<open>
  The \<open>while (queue.length > 0)\<close> loop of \<open>floodFill\<close>. The state is the shared \<open>visited\<close>
  array, the queue, the pixel list and the two sums. The loop need not end when
  \<open>visited\<close> is shorter than \<open>width * height\<close>, so it is a partial function: \<open>None\<close> is
  "does not return". For \<open>width > 0\<close>, \<open>idx mod w\<close> and \<open>idx div w\<close> are the source's
  \<open>idx % width\<close> and \<open>Math.floor(idx / width)\<close>; \<open>findRedMarkers\<close> never calls
  \<open>floodFill\<close> with \<open>width = 0\<close>.
\<close>

partial_function (option) floodLoop ::
  "nat \<Rightarrow> nat \<Rightarrow> nat list \<Rightarrow> nat list \<Rightarrow> nat list \<Rightarrow> nat list \<Rightarrow> nat \<Rightarrow> nat
   \<Rightarrow> (nat list \<times> nat list \<times> nat \<times> nat) option" where
  "floodLoop w h redMap visited queue pxs sumX sumY =
     (case queue of
        [] \<Rightarrow> Some (visited, pxs, sumX, sumY)
      | idx # rest \<Rightarrow>
          if truthy visited idx then floodLoop w h redMap visited rest pxs sumX sumY
          else let visited' = visited[idx := 1]
               in floodLoop w h redMap visited'
                    (rest @ map nat (filter (pushable w h redMap visited') (neighbors idx w)))
                    (pxs @ [idx]) (sumX + idx mod w) (sumY + idx div w))"

declare floodLoop.simps [code]

text \<open>\<open>floodFill\<close> returns the cluster; the model also returns the updated \<open>visited\<close>.\<close>

definition floodFill ::
  "nat \<Rightarrow> nat \<Rightarrow> nat \<Rightarrow> nat list \<Rightarrow> nat list \<Rightarrow> (cluster \<times> nat list) option" where
  "floodFill startIdx w h redMap visited =
     (case floodLoop w h redMap visited [startIdx] [] 0 0 of
        None \<Rightarrow> None
      | Some (visited', pxs, sumX, sumY) \<Rightarrow>
          Some (\<lparr>pixels = pxs, centerX = jsdiv sumX (length pxs),
                 centerY = jsdiv sumY (length pxs)\<rparr>, visited'))"

text \<open>The loop \<open>for (let idx = 0; idx < width * height; idx++)\<close> of \<open>findRedMarkers\<close>.\<close>

function clusterLoop ::
  "nat \<Rightarrow> nat \<Rightarrow> nat \<Rightarrow> nat list \<Rightarrow> nat list \<Rightarrow> cluster list \<Rightarrow> cluster list option" where
  "clusterLoop idx w h redMap visited clusters =
     (if idx < w * h then
        if truthy redMap idx \<and> \<not> truthy visited idx then
          case floodFill idx w h redMap visited of
            None \<Rightarrow> None
          | Some (c, visited') \<Rightarrow>
              clusterLoop (idx + 1) w h redMap visited'
                (if length (pixels c) > 20 then clusters @ [c] else clusters)
        else clusterLoop (idx + 1) w h redMap visited clusters
      else Some clusters)"
  by pat_completeness auto
termination
  by (relation "measure (\<lambda>(idx, w, h, m, v, cs). w * h - idx)") auto

declare clusterLoop.simps [simp del]

text \<open>
  One returned marker \<open>{x, y, size, pixelCount, rvec, tvec}\<close>; the fields carry the prefix
  \<open>det_\<close> where the source's name is taken in HOL.
\<close>

record detection =
  det_x :: jsnum
  det_y :: jsnum
  det_size :: nat
  pixelCount :: nat
  det_rvec :: "jsnum list"
  det_tvec :: "jsnum list"

definition toDetection :: "cluster \<Rightarrow> detection" where
  "toDetection c =
     \<lparr>det_x = centerX c, det_y = centerY c, det_size = length (pixels c),
      pixelCount = length (pixels c),
      det_rvec = [Num 0, Num 0, Num 0], det_tvec = [Num 0, Num 0, Num 1]\<rparr>"

text \<open>The clusters that pass the size test, in discovery order (before the sort).\<close>

definition findClusters :: "imageData \<Rightarrow> cluster list option" where
  "findClusters img =
     (let w = width img; h = height img;
          redMap = buildRedMap (data img) 0 (replicate (w * h) 0);
          visited = replicate (w * h) 0
      in clusterLoop 0 w h redMap visited [])"

text \<open>
  \<open>clusters.sort((a, b) => b.pixels.length - a.pixels.length)\<close> is a stable sort by
  descending pixel count; \<open>slice(0, maxMarkers)\<close> keeps the first \<open>maxMarkers\<close>.
\<close>

definition sortClusters :: "cluster list \<Rightarrow> cluster list" where
  "sortClusters cs = sort_key (\<lambda>c. - int (length (pixels c))) cs"

definition findRedMarkers :: "imageData \<Rightarrow> nat \<Rightarrow> detection list option" where
  "findRedMarkers img maxMarkers =
     (case findClusters img of
        None \<Rightarrow> None
      | Some clusters \<Rightarrow> Some (map toDetection (take maxMarkers (sortClusters clusters))))"

definition detect :: "bool \<Rightarrow> imageData \<Rightarrow> detection list option" where
  "detect ready img = (if \<not> ready then Some [] else findRedMarkers img 4)"

section \<open>Playback (the asset loader's mesh functions)\<close>

text \<open>
  The playback state of an \<open>HTMLVideoElement\<close>, and a mesh with its \<open>visible\<close> flag and
  \<open>userData.videoElement\<close>. \<open>play()\<close> and \<open>pause()\<close> flip \<open>paused\<close> and leave
  \<open>currentTime\<close> alone; a rejected \<open>play()\<close> is logged by the source and is not modelled.
\<close>

record videoEl =
  paused :: bool
  currentTime :: rat

record mesh =
  visible :: bool
  userDataVideo :: "videoEl option"

definition playVideo :: "mesh \<Rightarrow> mesh" where
  "playVideo m =
     (case userDataVideo m of
        None \<Rightarrow> m
      | Some v \<Rightarrow> if paused v then m\<lparr>userDataVideo := Some (v\<lparr>paused := False\<rparr>)\<rparr> else m)"

definition pauseVideo :: "mesh \<Rightarrow> mesh" where
  "pauseVideo m =
     (case userDataVideo m of
        None \<Rightarrow> m
      | Some v \<Rightarrow> if \<not> paused v then m\<lparr>userDataVideo := Some (v\<lparr>paused := True\<rparr>)\<rparr> else m)"

definition stopVideo :: "mesh \<Rightarrow> mesh" where
  "stopVideo m =
     (case userDataVideo m of
        None \<Rightarrow> m
      | Some v \<Rightarrow> m\<lparr>userDataVideo := Some (v\<lparr>paused := True, currentTime := 0\<rparr>)\<rparr>)"

section \<open>The tracking events\<close>

text \<open>An event is a call of \<open>onMarkerFound\<close> or of \<open>onMarkerLost\<close>.\<close>

datatype event = MarkerFound | MarkerLost

text \<open>What the specification lets a tick fire, from the tracking flag before and after.\<close>

definition transitionEvents :: "bool \<Rightarrow> bool \<Rightarrow> event list" where
  "transitionEvents before after =
     (if \<not> before \<and> after then [MarkerFound]
      else if before \<and> \<not> after then [MarkerLost] else [])"

section \<open>The first application (src/src/main.js, heuristic pose)\<close>

text \<open>A thrown value: an error object with its message.\<close>

datatype jsError = JsError string

text \<open>
  The fields of \<open>ARApp\<close> that \<open>detectMarker\<close> reads and writes: the tracking flag, the
  video plane \<open>arVideo\<close> with its \<open>matrix\<close>, and the camera's \<open>matrixWorld\<close> and
  \<open>matrixWorldInverse\<close>. The debug text is not modelled.
\<close>

record heuristicApp =
  isTracking :: bool
  arVideo :: mesh
  arVideoMatrix :: "jsnum list"
  matrixWorld :: "jsnum list"
  matrixWorldInverse :: "jsnum list"

text \<open>
  The rendering library is not part of the repository; the three calls into it that
  \<open>updateCameraPose\<close> depends on are parameters. \<open>makeRotationFromEuler\<close> gives the sixteen
  elements of the rotation for the three Euler angles. \<open>getInverse\<close> is
  \<open>matrixWorld.getInverse(m)\<close>: it throws, or gives the elements it stores in
  \<open>matrixWorld\<close>. \<open>updateMatrixWorld\<close> is \<open>camera.updateMatrixWorld(true)\<close>: it throws, or
  gives the camera's new \<open>matrixWorld\<close> and \<open>matrixWorldInverse\<close> from the old ones.
\<close>

record threeLib =
  makeRotationFromEuler :: "jsnum \<Rightarrow> jsnum \<Rightarrow> jsnum \<Rightarrow> jsnum list"
  getInverse :: "jsnum list \<Rightarrow> jsError + jsnum list"
  updateMatrixWorld :: "jsnum list \<times> jsnum list \<Rightarrow> jsError + jsnum list \<times> jsnum list"

text \<open>
  \<open>calculateModelViewMatrix\<close>. The rotation is the library's
  \<open>makeRotationFromEuler(new Euler(-rvec[0], -rvec[1], rvec[2], 'XYZ'))\<close>; \<open>setPosition\<close>
  then writes elements 12 to 14.
\<close>

definition calculateModelViewMatrix :: "threeLib \<Rightarrow> jsnum list \<Rightarrow> jsnum list \<Rightarrow> jsnum list" where
  "calculateModelViewMatrix lib rv tv =
     (let elements =
            makeRotationFromEuler lib (jsneg (jsIndex rv 0)) (jsneg (jsIndex rv 1)) (jsIndex rv 2)
      in elements[12 := jsmul (jsIndex tv 0) (1 / 100),
                  13 := jsmul (jsneg (jsIndex tv 1)) (1 / 100),
                  14 := jsmul (jsneg (jsIndex tv 2)) (1 / 100)])"

text \<open>
  \<open>updateCameraPose\<close>, statement by statement: \<open>matrixWorldInverse.fromArray\<close>,
  \<open>matrixWorld.getInverse\<close>, \<open>camera.updateMatrixWorld(true)\<close>, \<open>arVideo.visible = true\<close>,
  \<open>arVideo.matrix.copy(camera.matrixWorld)\<close>. A call that throws ends the method with
  the state written so far; the method has no \<open>try\<close>.
\<close>

definition updateCameraPose ::
  "threeLib \<Rightarrow> heuristicApp \<Rightarrow> jsnum list \<Rightarrow> jsnum list \<Rightarrow> heuristicApp \<times> jsError option" where
  "updateCameraPose lib s rv tv =
     (let modelViewMatrix = calculateModelViewMatrix lib rv tv;
          s1 = s\<lparr>matrixWorldInverse := modelViewMatrix\<rparr>
      in case getInverse lib (matrixWorldInverse s1) of
           Inl e \<Rightarrow> (s1, Some e)
         | Inr inverted \<Rightarrow>
             (let s2 = s1\<lparr>matrixWorld := inverted\<rparr>
              in case updateMatrixWorld lib (matrixWorld s2, matrixWorldInverse s2) of
                   Inl e \<Rightarrow> (s2, Some e)
                 | Inr (mw, mwi) \<Rightarrow>
                     (let s3 = s2\<lparr>matrixWorld := mw, matrixWorldInverse := mwi\<rparr>;
                          s4 = s3\<lparr>arVideo := (arVideo s3)\<lparr>visible := True\<rparr>\<rparr>
                      in (s4\<lparr>arVideoMatrix := matrixWorld s4\<rparr>, None))))"

text \<open>The handlers call \<open>play()\<close> and \<open>pause()\<close> on the element directly.\<close>

definition heuristicMarkerFound :: "heuristicApp \<Rightarrow> heuristicApp" where
  "heuristicMarkerFound s =
     s\<lparr>isTracking := True,
       arVideo := (arVideo s)\<lparr>userDataVideo :=
         map_option (\<lambda>v. v\<lparr>paused := False\<rparr>) (userDataVideo (arVideo s))\<rparr>\<rparr>"

definition heuristicMarkerLost :: "heuristicApp \<Rightarrow> heuristicApp" where
  "heuristicMarkerLost s =
     s\<lparr>isTracking := False,
       arVideo := (arVideo s)\<lparr>userDataVideo :=
         map_option (\<lambda>v. v\<lparr>paused := True\<rparr>) (userDataVideo (arVideo s))\<rparr>\<rparr>"

text \<open>
  \<open>detectMarker\<close>, on the result of \<open>detector.detect()\<close>: the state it leaves, the events
  it fired and the exception that left it, if any. \<open>onMarkerFound\<close> runs before
  \<open>updateCameraPose\<close>.
\<close>

definition detectMarker ::
  "threeLib \<Rightarrow> heuristicApp \<Rightarrow> ratioResult \<Rightarrow> heuristicApp \<times> event list \<times> jsError option" where
  "detectMarker lib s result =
     (case result of
        Found rv tv \<Rightarrow>
          if \<not> isTracking s
          then (let (s', err) = updateCameraPose lib (heuristicMarkerFound s) rv tv
                in (s', [MarkerFound], err))
          else (let (s', err) = updateCameraPose lib s rv tv in (s', [], err))
      | NotFound \<Rightarrow>
          if isTracking s then (heuristicMarkerLost s, [MarkerLost], None) else (s, [], None))"

text \<open>
  One tick of the first \<open>animate\<close>: \<open>detectMarker\<close> runs when the camera frame is ready
  (\<open>Some\<close> result), and not otherwise. This \<open>animate\<close> has no \<open>try\<close>: an exception of
  \<open>detectMarker\<close> leaves the tick.
\<close>

definition heuristicTick ::
  "threeLib \<Rightarrow> heuristicApp \<Rightarrow> ratioResult option \<Rightarrow> heuristicApp \<times> event list \<times> jsError option" where
  "heuristicTick lib s input =
     (case input of None \<Rightarrow> (s, [], None) | Some result \<Rightarrow> detectMarker lib s result)"

text \<open>
  A run of ticks: per tick, the tracking flag before, the events, the flag after.
  \<open>animate\<close> requests the next frame before anything else, so the tick after one that
  threw runs all the same, on the state that tick left.
\<close>

fun heuristicTrace ::
  "threeLib \<Rightarrow> heuristicApp \<Rightarrow> ratioResult option list \<Rightarrow> (bool \<times> event list \<times> bool) list" where
  "heuristicTrace lib s [] = []"
| "heuristicTrace lib s (i # is) =
     (let (s', evs, err) = heuristicTick lib s i
      in (isTracking s, evs, isTracking s') # heuristicTrace lib s' is)"

section \<open>The AR.js application (src/src/main.js, library pose)\<close>

record markerGroupObj =
  groupVisible :: bool
  groupMatrix :: "jsnum list"

text \<open>
  The fields of the second \<open>ARApp\<close> that a tick reads and writes. \<open>arController\<close>,
  \<open>videoElement\<close> and \<open>renderer\<close> say whether the field is set. Status texts and the
  console are not modelled: the handlers' calls to \<open>updateMarkerStatus\<close>,
  \<open>updateVideoStatus\<close> and \<open>updateFPS\<close> write to page elements and do not throw.
\<close>

record arApp =
  arController :: bool
  videoElement :: bool
  renderer :: bool
  markerGroup :: "markerGroupObj option"
  videoMesh :: "mesh option"
  isMarkerDetected :: bool
  frameCount :: nat
  lastFpsUpdate :: int
  errorLogged :: bool

text \<open>
  What the outside world does in one tick: whether the camera frame is ready, and the
  outcome of every call into the canvas, the tracking library and the renderer, each of
  which may throw an error object. \<open>getTransMatSquare\<close> returns its success flag and
  leaves the contents of \<open>transArray\<close>; the array is the tick's own
  \<open>new Float32Array(16)\<close>, so in a run of the program the list has sixteen elements, zero
  where the library wrote nothing. \<open>now\<close> is \<open>Date.now()\<close>.
\<close>

record frameEnv =
  readyStateOk :: bool
  ctx2d :: bool
  drawImage :: "jsError option"
  process :: "jsError option"
  getMarkerNum :: "jsError + int"
  getTransMatSquare :: "jsError + (bool \<times> jsnum list)"
  render :: "jsError option"
  now :: int

definition onMarkerFound :: "arApp \<Rightarrow> arApp" where
  "onMarkerFound s =
     (case videoMesh s of
        None \<Rightarrow> s
      | Some m \<Rightarrow> s\<lparr>videoMesh := Some (playVideo (m\<lparr>visible := True\<rparr>))\<rparr>)"

definition onMarkerLost :: "arApp \<Rightarrow> arApp" where
  "onMarkerLost s =
     (case videoMesh s of
        None \<Rightarrow> s
      | Some m \<Rightarrow> s\<lparr>videoMesh := Some (pauseVideo (m\<lparr>visible := False\<rparr>))\<rparr>)"

text \<open>
  The three places of \<open>animate\<close> that give the marker up: each hides the marker group,
  clears the flag and calls \<open>onMarkerLost\<close>, if the marker was detected.
\<close>

definition giveUpMarker :: "arApp \<Rightarrow> markerGroupObj \<Rightarrow> arApp \<times> event list" where
  "giveUpMarker s g =
     (if isMarkerDetected s
      then (onMarkerLost (s\<lparr>markerGroup := Some (g\<lparr>groupVisible := False\<rparr>),
                             isMarkerDetected := False\<rparr>), [MarkerLost])
      else (s, []))"

text \<open>
  The inner \<open>try\<close> block with its \<open>catch\<close>, entered when \<open>markerCount > 0\<close> and the
  marker group exists.
\<close>

definition applyTransform :: "arApp \<Rightarrow> markerGroupObj \<Rightarrow> frameEnv \<Rightarrow> arApp \<times> event list" where
  "applyTransform s g env =
     (case getTransMatSquare env of
        Inl e \<Rightarrow> giveUpMarker s g
      | Inr (success, transArray) \<Rightarrow>
          if success \<and> length transArray \<ge> 16 then
            let s1 = s\<lparr>markerGroup :=
                       Some (g\<lparr>groupMatrix := take 16 transArray, groupVisible := True\<rparr>)\<rparr>
            in if \<not> isMarkerDetected s1
               then (onMarkerFound (s1\<lparr>isMarkerDetected := True\<rparr>), [MarkerFound])
               else (s1, [])
          else giveUpMarker s g)"

text \<open>The branch for "no markers detected".\<close>

definition noMarkers :: "arApp \<Rightarrow> arApp \<times> event list" where
  "noMarkers s =
     (case markerGroup s of
        None \<Rightarrow> (s, [])
      | Some g \<Rightarrow>
          if groupVisible g then
            let s1 = s\<lparr>markerGroup := Some (g\<lparr>groupVisible := False\<rparr>)\<rparr>
            in if isMarkerDetected s1
               then (onMarkerLost (s1\<lparr>isMarkerDetected := False\<rparr>), [MarkerLost])
               else (s1, [])
          else (s, []))"

text \<open>
  The outer \<open>try\<close> block up to the render call: the state and events so far, and the
  exception that ended it, if any.
\<close>

definition processFrame :: "arApp \<Rightarrow> frameEnv \<Rightarrow> arApp \<times> event list \<times> jsError option" where
  "processFrame s env =
     (if arController s \<and> videoElement s \<and> readyStateOk env then
        case (if ctx2d env then drawImage env else None) of
          Some e \<Rightarrow> (s, [], Some e)
        | None \<Rightarrow>
            (case process env of
               Some e \<Rightarrow> (s, [], Some e)
             | None \<Rightarrow>
                 (case getMarkerNum env of
                    Inl e \<Rightarrow> (s, [], Some e)
                  | Inr markerCount \<Rightarrow>
                      (case (if markerCount > 0 then markerGroup s else None) of
                         Some g \<Rightarrow> (let (s', evs) = applyTransform s g env in (s', evs, None))
                       | None \<Rightarrow> (let (s', evs) = noMarkers s in (s', evs, None)))))
      else (s, [], None))"

definition updateFPS :: "arApp \<Rightarrow> int \<Rightarrow> arApp" where
  "updateFPS s t =
     (let s1 = s\<lparr>frameCount := frameCount s + 1\<rparr>
      in if t - lastFpsUpdate s1 \<ge> 1000 then s1\<lparr>frameCount := 0, lastFpsUpdate := t\<rparr> else s1)"

text \<open>
  One call of \<open>animate\<close>: whether it scheduled the next call, the events it fired, the
  exception its \<open>catch\<close> received, if any, and the exception it let escape, if any.
  \<open>requestAnimationFrame\<close> is the first statement; the \<open>catch\<close> logs the first error
  only; \<open>updateFPS\<close> runs after the \<open>try\<close>.
\<close>

record tickResult =
  app :: arApp
  events :: "event list"
  scheduled :: bool
  caught :: "jsError option"
  thrown :: "jsError option"

definition animate :: "arApp \<Rightarrow> frameEnv \<Rightarrow> tickResult" where
  "animate s env =
     (let (s1, evs, err1) = processFrame s env;
          err = (case err1 of
                   Some e \<Rightarrow> Some e
                 | None \<Rightarrow> if renderer s1 then render env else None);
          s2 = (case err of
                  None \<Rightarrow> s1
                | Some e \<Rightarrow> if \<not> errorLogged s1 then s1\<lparr>errorLogged := True\<rparr> else s1)
      in \<lparr>app = updateFPS s2 (now env), events = evs, scheduled = True,
          caught = err, thrown = None\<rparr>)"

text \<open>The render loop: each scheduled call runs on the state the previous one left.\<close>

fun runLoop :: "arApp \<Rightarrow> frameEnv list \<Rightarrow> tickResult list" where
  "runLoop s [] = []"
| "runLoop s (env # envs) =
     (let r = animate s env
      in r # (if scheduled r \<and> thrown r = None then runLoop (app r) envs else []))"

fun finalApp :: "arApp \<Rightarrow> frameEnv list \<Rightarrow> arApp" where
  "finalApp s [] = s"
| "finalApp s (env # envs) = finalApp (app (animate s env)) envs"

fun arTrace :: "arApp \<Rightarrow> frameEnv list \<Rightarrow> (bool \<times> event list \<times> bool) list" where
  "arTrace s [] = []"
| "arTrace s (env # envs) =
     (let r = animate s env
      in (isMarkerDetected s, events r, isMarkerDetected (app r)) # arTrace (app r) envs)"

text \<open>
  The tick's detection and pose succeed: the frame is processed, a marker is counted and
  the library hands back a full transform.
\<close>

definition poseResolved :: "arApp \<Rightarrow> frameEnv \<Rightarrow> bool" where
  "poseResolved s env =
     (arController s \<and> videoElement s \<and> readyStateOk env \<and>
      (if ctx2d env then drawImage env else None) = None \<and> process env = None \<and>
      (case getMarkerNum env of
         Inl e \<Rightarrow> False
       | Inr markerCount \<Rightarrow>
           markerCount > 0 \<and> markerGroup s \<noteq> None \<and>
           (case getTransMatSquare env of
              Inl e \<Rightarrow> False
            | Inr (success, transArray) \<Rightarrow> success \<and> length transArray \<ge> 16)))"

text \<open>
  The state \<open>init\<close> leaves when it reaches \<open>animate\<close>: controller, renderer and marker
  group exist, \<open>loadVideoAssets\<close> has stored the mesh with \<open>visible = false\<close>, and no
  marker is detected.
\<close>

definition initialised :: "arApp \<Rightarrow> bool" where
  "initialised s =
     (arController s \<and> renderer s \<and> markerGroup s \<noteq> None \<and> \<not> isMarkerDetected s \<and>
      (case videoMesh s of None \<Rightarrow> False | Some m \<Rightarrow> \<not> visible m))"

section \<open>The asset cache (AssetLoader.loadVideoTexture)\<close>

text \<open>
  A loaded asset is the object \<open>{videoElement, texture}\<close> that one decode creates; it is
  identified by the number of that decode. A promise is identified by the number of the
  decode that settles it.
\<close>

record videoAsset =
  assetVideo :: nat
  assetTexture :: nat

definition decoded :: "nat \<Rightarrow> videoAsset" where
  "decoded p = \<lparr>assetVideo = p, assetTexture = p\<rparr>"

text \<open>
  What the promise returned by \<open>loadVideoTexture\<close> resolves to: a cached asset, or whatever
  the in-flight promise \<open>p\<close> settles to.
\<close>

datatype loadResult = Fulfilled videoAsset | Settles nat

text \<open>
  The loader: its two maps, the log of the calls of \<open>_loadVideoTextureInternal\<close> (promise,
  url, name), and the suspended first callers, each waiting at \<open>await loadPromise\<close> with
  its \<open>name\<close>.
\<close>

record assetLoader =
  loadedAssets :: "string \<rightharpoonup> videoAsset"
  loadingPromises :: "string \<rightharpoonup> nat"
  decodes :: "(nat \<times> string \<times> string) list"
  awaiting :: "nat \<rightharpoonup> string"

text \<open>
  The synchronous part of a call, up to its first \<open>await\<close> or its \<open>return\<close>. The
  \<open>videoConfig\<close> argument only sets flags of the new element and is left out.
\<close>

definition loadVideoTexture :: "assetLoader \<Rightarrow> string \<Rightarrow> string \<Rightarrow> loadResult \<times> assetLoader" where
  "loadVideoTexture L url name =
     (case loadedAssets L name of
        Some a \<Rightarrow> (Fulfilled a, L)
      | None \<Rightarrow>
          (case loadingPromises L name of
             Some p \<Rightarrow> (Settles p, L)
           | None \<Rightarrow>
               let p = length (decodes L)
               in (Settles p,
                   L\<lparr>decodes := decodes L @ [(p, url, name)],
                     loadingPromises := (loadingPromises L)(name \<mapsto> p),
                     awaiting := (awaiting L)(p \<mapsto> name)\<rparr>)))"

text \<open>
  The in-flight promise \<open>p\<close> settles and the first caller resumes: on success it stores
  the result; in both cases its \<open>finally\<close> removes the pending entry.
\<close>

definition promiseSettled :: "assetLoader \<Rightarrow> nat \<Rightarrow> bool \<Rightarrow> assetLoader" where
  "promiseSettled L p ok =
     (case awaiting L p of
        None \<Rightarrow> L
      | Some name \<Rightarrow>
          L\<lparr>loadedAssets := (if ok then (loadedAssets L)(name \<mapsto> decoded p) else loadedAssets L),
            loadingPromises := (loadingPromises L)(name := None),
            awaiting := (awaiting L)(p := None)\<rparr>)"

definition newLoader :: assetLoader where
  "newLoader = \<lparr>loadedAssets = Map.empty, loadingPromises = Map.empty, decodes = [],
                 awaiting = Map.empty\<rparr>"

section \<open>Notions used in the statements and proofs\<close>

text \<open>
  The steps the flood fill can take from pixel \<open>i\<close>: to a neighbour index that passes its
  test, relative to the \<open>visited\<close> array at the start of the fill. The component of \<open>s\<close> is
  what these steps reach.
\<close>

definition edges :: "nat \<Rightarrow> nat \<Rightarrow> nat list \<Rightarrow> nat list \<Rightarrow> (nat \<times> nat) set" where
  "edges w h redMap visited0 =
     {(i, j). \<exists>n \<in> set (neighbors i w). pushable w h redMap visited0 n \<and> j = nat n}"

definition component :: "nat \<Rightarrow> nat \<Rightarrow> nat list \<Rightarrow> nat list \<Rightarrow> nat \<Rightarrow> nat set" where
  "component w h redMap visited0 s = {p. (s, p) \<in> (edges w h redMap visited0)\<^sup>*}"

definition zeros :: "nat list \<Rightarrow> nat" where
  "zeros v = length (filter (\<lambda>n. n = 0) v)"

text \<open>The invariant of the flood-fill loop.\<close>

definition floodInv ::
  "nat \<Rightarrow> nat \<Rightarrow> nat list \<Rightarrow> nat list \<Rightarrow> nat \<Rightarrow> nat list \<Rightarrow> nat list \<Rightarrow> nat list \<Rightarrow> nat \<Rightarrow> nat
   \<Rightarrow> bool" where
  "floodInv w h rm v0 s v q px sx sy \<longleftrightarrow>
     length v = w * h \<and> (\<forall>i \<in> set q. i < w * h) \<and> distinct px \<and>
     (\<forall>i. truthy v i \<longleftrightarrow> truthy v0 i \<or> i \<in> set px) \<and>
     (\<forall>i \<in> set px. \<not> truthy v0 i) \<and>
     set px \<union> set q \<subseteq> component w h rm v0 s \<and>
     (\<forall>p \<in> set px. \<forall>j. (p, j) \<in> edges w h rm v0 \<longrightarrow> j \<in> set px \<or> j \<in> set q) \<and>
     (s \<in> set px \<or> s \<in> set q) \<and>
     sx = sum_list (map (\<lambda>p. p mod w) px) \<and> sy = sum_list (map (\<lambda>p. p div w) px)"

text \<open>
  Adjacency as the specification means it: two pixels of a \<open>w\<close>-wide frame are
  4-adjacent when they are next to each other in one row or in one column. Two
  marker-coloured pixels are joined when a chain of 4-adjacent marker-coloured pixels
  leads from one to the other.
\<close>

definition adjacent4 :: "nat \<Rightarrow> nat \<Rightarrow> nat \<Rightarrow> bool" where
  "adjacent4 w i j =
     ((i div w = j div w \<and> (i mod w + 1 = j mod w \<or> j mod w + 1 = i mod w)) \<or>
      (i mod w = j mod w \<and> (i div w + 1 = j div w \<or> j div w + 1 = i div w)))"

definition markerPixel :: "imageData \<Rightarrow> nat \<Rightarrow> bool" where
  "markerPixel img k = (k < width img * height img \<and> isRedAt (data img) (4 * k))"

definition joined4 :: "imageData \<Rightarrow> nat \<Rightarrow> nat \<Rightarrow> bool" where
  "joined4 img i j =
     ((i, j) \<in> {(a, b). markerPixel img a \<and> markerPixel img b \<and> adjacent4 (width img) a b}\<^sup>*)"

text \<open>
  Frames for the concrete cases: \<open>paintFrame w h red\<close> has an opaque pure-red pixel where
  \<open>red\<close> holds and an opaque black one elsewhere.
\<close>

definition paintFrame :: "nat \<Rightarrow> nat \<Rightarrow> (nat \<Rightarrow> bool) \<Rightarrow> imageData" where
  "paintFrame w h red =
     \<lparr>data = concat (map (\<lambda>k. if red k then [255, 0, 0, 255] else [0, 0, 0, 255]) [0..<w * h]),
      width = w, height = h\<rparr>"

text \<open>
  A 22 by 2 frame: the last eleven pixels of row 0 and the first eleven of row 1 are red.
\<close>

definition wrapFrame :: imageData where
  "wrapFrame = paintFrame 22 2 (\<lambda>k. 11 \<le> k \<and> k < 33)"

text \<open>
  The square of the 100 by 100 scenario: the 400 pixels with both coordinates from 10 up
  to, not including, 30.
\<close>

definition inSquare :: "nat \<Rightarrow> bool" where
  "inSquare k = (10 \<le> k mod 100 \<and> k mod 100 < 30 \<and> 10 \<le> k div 100 \<and> k div 100 < 30)"

definition squareFrame :: imageData where
  "squareFrame = paintFrame 100 100 inSquare"

text \<open>
  The same square with its far side at any \<open>hi\<close>: coordinates from 10 up to, not
  including, \<open>hi\<close>.
\<close>

definition inBox :: "nat \<Rightarrow> nat \<Rightarrow> bool" where
  "inBox hi k = (10 \<le> k mod 100 \<and> k mod 100 < hi \<and> 10 \<le> k div 100 \<and> k div 100 < hi)"

text \<open>
  Two parts of \<open>poseResolved\<close>: the tick gets as far as asking the library for the
  transform, and the library gives none (the call throws or reports failure).
\<close>

definition reachesTransform :: "arApp \<Rightarrow> frameEnv \<Rightarrow> bool" where
  "reachesTransform s env =
     (arController s \<and> videoElement s \<and> readyStateOk env \<and>
      (if ctx2d env then drawImage env else None) = None \<and> process env = None \<and>
      (case getMarkerNum env of Inl e \<Rightarrow> False | Inr markerCount \<Rightarrow> markerCount > 0) \<and>
      markerGroup s \<noteq> None)"

definition transformFailed :: "frameEnv \<Rightarrow> bool" where
  "transformFailed env =
     (case getTransMatSquare env of
        Inl e \<Rightarrow> True
      | Inr (success, transArray) \<Rightarrow> \<not> success)"

text \<open>
  The invariant of the AR.js application: the mesh exists and is visible exactly when the
  marker is detected, and a detected marker's group exists and is visible.
\<close>

definition meshMatchesFlag :: "arApp \<Rightarrow> bool" where
  "meshMatchesFlag s =
     (case videoMesh s of None \<Rightarrow> False | Some m \<Rightarrow> visible m = isMarkerDetected s)"

definition trackingInv :: "arApp \<Rightarrow> bool" where
  "trackingInv s =
     (meshMatchesFlag s \<and>
      (case markerGroup s of
         None \<Rightarrow> \<not> isMarkerDetected s
       | Some g \<Rightarrow> isMarkerDetected s \<longrightarrow> groupVisible g))"

text \<open>Concrete states and ticks for the examples.\<close>

definition identityElements :: "jsnum list" where
  "identityElements =
     [Num 1, Num 0, Num 0, Num 0, Num 0, Num 1, Num 0, Num 0,
      Num 0, Num 0, Num 1, Num 0, Num 0, Num 0, Num 0, Num 1]"

definition pausedPlane :: mesh where
  "pausedPlane = \<lparr>visible = False, userDataVideo = Some \<lparr>paused = True, currentTime = 0\<rparr>\<rparr>"

text \<open>The first application as its constructor and \<open>init\<close> leave it.\<close>

definition heuristicStart :: heuristicApp where
  "heuristicStart =
     \<lparr>isTracking = False, arVideo = pausedPlane, arVideoMatrix = identityElements,
      matrixWorld = identityElements, matrixWorldInverse = identityElements\<rparr>"

text \<open>The AR.js application as \<open>init\<close> leaves it (a new group is visible).\<close>

definition arStart :: arApp where
  "arStart =
     \<lparr>arController = True, videoElement = True, renderer = True,
      markerGroup = Some \<lparr>groupVisible = True, groupMatrix = identityElements\<rparr>,
      videoMesh = Some pausedPlane, isMarkerDetected = False,
      frameCount = 0, lastFpsUpdate = 0, errorLogged = False\<rparr>"

text \<open>
  Ticks: one marker with its transform; no marker; one marker whose transform the library
  reports as failed, the array left as it was created; one marker whose transform the
  library reports as found after writing ten of the sixteen elements; one marker whose
  transform the library reports as found with NaN in every element; a library call that
  throws; a renderer that throws.
\<close>

definition markerEnv :: frameEnv where
  "markerEnv =
     \<lparr>readyStateOk = True, ctx2d = True, drawImage = None, process = None,
      getMarkerNum = Inr 1, getTransMatSquare = Inr (True, identityElements),
      render = None, now = 16\<rparr>"

definition emptyEnv :: frameEnv where
  "emptyEnv = markerEnv\<lparr>getMarkerNum := Inr 0\<rparr>"

definition failedTransformEnv :: frameEnv where
  "failedTransformEnv = markerEnv\<lparr>getTransMatSquare := Inr (False, replicate 16 (Num 0))\<rparr>"

definition partialFillEnv :: frameEnv where
  "partialFillEnv =
     markerEnv\<lparr>getTransMatSquare := Inr (True, take 10 identityElements @ replicate 6 (Num 0))\<rparr>"

definition nanTransformEnv :: frameEnv where
  "nanTransformEnv = markerEnv\<lparr>getTransMatSquare := Inr (True, replicate 16 NaN)\<rparr>"

definition throwingEnv :: frameEnv where
  "throwingEnv = markerEnv\<lparr>getTransMatSquare := Inl (JsError ''transform'')\<rparr>"

definition renderFailsEnv :: frameEnv where
  "renderFailsEnv = markerEnv\<lparr>render := Some (JsError ''context lost'')\<rparr>"

text \<open>
  For the first application: the library at the version the repository's notes name,
  0.160, and a found detection whose translation vector has a NaN component. At that
  version \<open>Matrix4\<close> has no \<open>getInverse\<close>, so the call is a \<open>TypeError\<close>; the examples use the
  zero rotation vector only, whose rotation is the identity; \<open>updateMatrixWorld\<close> of a
  camera that was never moved gives the identity twice.
\<close>

definition three160 :: threeLib where
  "three160 =
     \<lparr>makeRotationFromEuler = (\<lambda>a b c. identityElements),
      getInverse = (\<lambda>m. Inl (JsError ''this.camera.matrixWorld.getInverse is not a function'')),
      updateMatrixWorld = (\<lambda>(mw, mwi). Inr (identityElements, identityElements))\<rparr>"

definition nanDetection :: ratioResult where
  "nanDetection = Found [Num 0, Num 0, Num 0] [NaN, Num 0, Num 1]"

text \<open>A mesh whose video is playing at 12.5 seconds, in a tracking application.\<close>

definition playingApp :: arApp where
  "playingApp =
     arStart\<lparr>isMarkerDetected := True,
       videoMesh := Some \<lparr>visible = True,
                           userDataVideo = Some \<lparr>paused = False, currentTime = 25 / 2\<rparr>\<rparr>\<rparr>"

section \<open>The flood fill returns and computes a component\<close>

text \<open>
  The loop returns for every start inside a \<open>visited\<close> array of the frame's size, and the
  pixel list it returns is, without repetition, the component of the start pixel under
  the steps the loop takes.
\<close>

lemma truthy_update:
  "x \<noteq> 0 \<Longrightarrow> truthy (v[i := x]) j \<longleftrightarrow> (j = i \<and> i < length v) \<or> truthy v j"
  by (cases "i < length v") (auto simp: truthy_def u8get_def nth_list_update)

lemma zeros_update: "i < length v \<Longrightarrow> v ! i = 0 \<Longrightarrow> zeros (v[i := 1]) < zeros v"
  unfolding zeros_def
proof (induction v arbitrary: i)
  case Nil
  then show ?case by simp
next
  case (Cons a v)
  then show ?case by (cases i) auto
qed

lemma not_truthy_zero: "i < length v \<Longrightarrow> \<not> truthy v i \<Longrightarrow> v ! i = 0"
  by (simp add: truthy_def u8get_def)

lemma pushes_length: "length (filter P (neighbors idx w)) \<le> 4"
  by (rule order_trans[OF length_filter_le]) (simp add: neighbors_def)

lemma pushable_bound: "pushable w h rm v n \<Longrightarrow> nat n < w * h"
  unfolding pushable_def by linarith

lemma floodInv_skip:
  assumes inv: "floodInv w h rm v0 s v (idx # rest) px sx sy"
    and vis: "truthy v idx" and s0: "\<not> truthy v0 s"
  shows "floodInv w h rm v0 s v rest px sx sy"
proof -
  have in_px: "j \<in> set px" if "j = idx" "\<not> truthy v0 j" for j
    using inv vis that unfolding floodInv_def by blast
  have e0: "\<not> truthy v0 j" if "(p, j) \<in> edges w h rm v0" for p j
    using that by (auto simp: edges_def pushable_def)
  from inv have closed: "\<forall>p \<in> set px. \<forall>j. (p, j) \<in> edges w h rm v0 \<longrightarrow>
      j \<in> set px \<or> j \<in> set (idx # rest)"
    and start: "s \<in> set px \<or> s \<in> set (idx # rest)"
    unfolding floodInv_def by auto
  have closed': "\<forall>p \<in> set px. \<forall>j. (p, j) \<in> edges w h rm v0 \<longrightarrow> j \<in> set px \<or> j \<in> set rest"
  proof (intro ballI allI impI)
    fix p j assume "p \<in> set px" "(p, j) \<in> edges w h rm v0"
    with closed e0 have "j \<in> set px \<or> j \<in> set (idx # rest)" "\<not> truthy v0 j" by blast+
    then show "j \<in> set px \<or> j \<in> set rest" using in_px by auto
  qed
  have start': "s \<in> set px \<or> s \<in> set rest"
    using start in_px s0 by auto
  show ?thesis
    using inv closed' start' unfolding floodInv_def by simp
qed

lemma floodInv_visit:
  assumes inv: "floodInv w h rm v0 s v (idx # rest) px sx sy"
    and nvis: "\<not> truthy v idx"
  shows "floodInv w h rm v0 s (v[idx := 1])
           (rest @ map nat (filter (pushable w h rm (v[idx := 1])) (neighbors idx w)))
           (px @ [idx]) (sx + idx mod w) (sy + idx div w)"
proof -
  let ?v = "v[idx := 1]"
  let ?push = "map nat (filter (pushable w h rm ?v) (neighbors idx w))"
  let ?E = "edges w h rm v0"
  let ?C = "component w h rm v0 s"
  from inv have len: "length v = w * h" and idx: "idx < w * h"
    and qb: "\<forall>i \<in> set rest. i < w * h" and dist: "distinct px"
    and mark: "\<And>i. truthy v i \<longleftrightarrow> truthy v0 i \<or> i \<in> set px"
    and fresh: "\<forall>i \<in> set px. \<not> truthy v0 i"
    and sub: "set px \<union> set (idx # rest) \<subseteq> ?C"
    and closed: "\<forall>p \<in> set px. \<forall>j. (p, j) \<in> ?E \<longrightarrow> j \<in> set px \<or> j \<in> set (idx # rest)"
    and start: "s \<in> set px \<or> s \<in> set (idx # rest)"
    and sums: "sx = sum_list (map (\<lambda>p. p mod w) px)" "sy = sum_list (map (\<lambda>p. p div w) px)"
    unfolding floodInv_def by auto
  have idx_new: "idx \<notin> set px" "\<not> truthy v0 idx" using mark nvis by auto
  have mark': "truthy ?v i \<longleftrightarrow> truthy v0 i \<or> i \<in> set (px @ [idx])" for i
    using mark[of i] idx len by (auto simp: truthy_update)
  have push_bound: "\<forall>i \<in> set ?push. i < w * h"
    by (auto dest: pushable_bound)
  have push_edge: "(idx, j) \<in> ?E" if "j \<in> set ?push" for j
  proof -
    from that obtain n where n: "n \<in> set (neighbors idx w)" "pushable w h rm ?v n" "j = nat n"
      by auto
    then have "pushable w h rm v0 n"
      using mark'[of "nat n"] by (auto simp: pushable_def)
    with n show ?thesis by (auto simp: edges_def)
  qed
  have idxC: "idx \<in> ?C" using sub by auto
  have push_sub: "set ?push \<subseteq> ?C"
  proof
    fix j assume "j \<in> set ?push"
    then have "(idx, j) \<in> ?E" by (rule push_edge)
    with idxC show "j \<in> ?C" unfolding component_def by (auto intro: rtrancl_into_rtrancl)
  qed
  have closed_idx: "j \<in> set (px @ [idx]) \<or> j \<in> set (rest @ ?push)" if "(idx, j) \<in> ?E" for j
  proof (cases "truthy ?v j")
    case True
    moreover from that have "\<not> truthy v0 j" by (auto simp: edges_def pushable_def)
    ultimately show ?thesis using mark'[of j] by simp
  next
    case False
    from that obtain n where n: "n \<in> set (neighbors idx w)" "pushable w h rm v0 n" "j = nat n"
      by (auto simp: edges_def)
    with False have "pushable w h rm ?v n" by (auto simp: pushable_def)
    with n have "j \<in> set ?push" by auto
    then show ?thesis by simp
  qed
  have closed': "\<forall>p \<in> set (px @ [idx]). \<forall>j. (p, j) \<in> ?E \<longrightarrow>
      j \<in> set (px @ [idx]) \<or> j \<in> set (rest @ ?push)"
  proof (intro ballI allI impI)
    fix p j assume p: "p \<in> set (px @ [idx])" and e: "(p, j) \<in> ?E"
    show "j \<in> set (px @ [idx]) \<or> j \<in> set (rest @ ?push)"
    proof (cases "p = idx")
      case True
      with e show ?thesis using closed_idx by blast
    next
      case False
      with p have "p \<in> set px" by simp
      with closed e have "j \<in> set px \<or> j \<in> set (idx # rest)" by blast
      then show ?thesis by auto
    qed
  qed
  show ?thesis
    unfolding floodInv_def
    using len qb push_bound dist idx_new mark' fresh sub push_sub closed' start sums
    by (auto simp del: One_nat_def)
qed

lemma component_closed:
  assumes s: "s \<in> A" and cl: "\<forall>p \<in> A. \<forall>j. (p, j) \<in> edges w h rm v0 \<longrightarrow> j \<in> A"
  shows "component w h rm v0 s \<subseteq> A"
proof
  fix p assume "p \<in> component w h rm v0 s"
  then have "(s, p) \<in> (edges w h rm v0)\<^sup>*" by (simp add: component_def)
  then show "p \<in> A"
    by (induction rule: rtrancl_induct) (use s cl in blast)+
qed

lemma floodLoop_correct:
  assumes "floodInv w h rm v0 s v q px sx sy" and "\<not> truthy v0 s"
  shows "\<exists>v' px'. floodLoop w h rm v q px sx sy =
            Some (v', px', sum_list (map (\<lambda>p. p mod w) px'), sum_list (map (\<lambda>p. p div w) px')) \<and>
          length v' = w * h \<and> distinct px' \<and> set px' = component w h rm v0 s \<and>
          (\<forall>i. truthy v' i \<longleftrightarrow> truthy v0 i \<or> i \<in> component w h rm v0 s)"
  using assms
proof (induction "5 * zeros v + length q" arbitrary: v q px sx sy rule: less_induct)
  case less
  note inv = less.prems(1) and s0 = less.prems(2)
  show ?case
  proof (cases q)
    case Nil
    from inv Nil have sub: "set px \<subseteq> component w h rm v0 s" and s: "s \<in> set px"
      and cl: "\<forall>p \<in> set px. \<forall>j. (p, j) \<in> edges w h rm v0 \<longrightarrow> j \<in> set px"
      unfolding floodInv_def by auto
    from component_closed[OF s cl] sub have eq: "set px = component w h rm v0 s" by auto
    have "floodLoop w h rm v q px sx sy = Some (v, px, sx, sy)"
      using Nil by (subst floodLoop.simps) simp
    with inv eq show ?thesis unfolding floodInv_def by auto
  next
    case (Cons idx rest)
    show ?thesis
    proof (cases "truthy v idx")
      case True
      have step: "floodLoop w h rm v q px sx sy = floodLoop w h rm v rest px sx sy"
        using Cons True by (subst floodLoop.simps) simp
      have inv': "floodInv w h rm v0 s v rest px sx sy"
        using floodInv_skip[OF inv[unfolded Cons] True s0] .
      have "5 * zeros v + length rest < 5 * zeros v + length q" using Cons by simp
      from less.hyps[OF this inv' s0] step show ?thesis by simp
    next
      case False
      let ?v = "v[idx := 1]"
      let ?q = "rest @ map nat (filter (pushable w h rm ?v) (neighbors idx w))"
      have step: "floodLoop w h rm v q px sx sy =
          floodLoop w h rm ?v ?q (px @ [idx]) (sx + idx mod w) (sy + idx div w)"
        using Cons False by (subst floodLoop.simps) (simp add: Let_def)
      have inv': "floodInv w h rm v0 s ?v ?q (px @ [idx]) (sx + idx mod w) (sy + idx div w)"
        using floodInv_visit[OF inv[unfolded Cons] False] .
      from inv Cons have "idx < length v" unfolding floodInv_def by simp
      with False have "zeros ?v < zeros v"
        by (intro zeros_update not_truthy_zero)
      moreover have "length ?q \<le> length rest + 4"
        using pushes_length[of "pushable w h rm ?v" idx w] by simp
      ultimately have "5 * zeros ?v + length ?q < 5 * zeros v + length q"
        using Cons by simp
      from less.hyps[OF this inv' s0] step show ?thesis by simp
    qed
  qed
qed

lemma floodInv_init:
  assumes "length v0 = w * h" and "s < w * h"
  shows "floodInv w h rm v0 s v0 [s] [] 0 0"
  using assms unfolding floodInv_def component_def by simp

lemma floodFill_correct:
  assumes len: "length v0 = w * h" and s: "s < w * h" and s0: "\<not> truthy v0 s"
  shows "\<exists>c v'. floodFill s w h rm v0 = Some (c, v') \<and>
          length v' = w * h \<and> distinct (pixels c) \<and> set (pixels c) = component w h rm v0 s \<and>
          centerX c = jsdiv (sum_list (map (\<lambda>p. p mod w) (pixels c))) (length (pixels c)) \<and>
          centerY c = jsdiv (sum_list (map (\<lambda>p. p div w) (pixels c))) (length (pixels c)) \<and>
          (\<forall>i. truthy v' i \<longleftrightarrow> truthy v0 i \<or> i \<in> component w h rm v0 s)"
proof -
  from floodLoop_correct[OF floodInv_init[OF len s] s0]
  obtain v' px' where
    "floodLoop w h rm v0 [s] [] 0 0 =
       Some (v', px', sum_list (map (\<lambda>p. p mod w) px'), sum_list (map (\<lambda>p. p div w) px'))"
    "length v' = w * h" "distinct px'" "set px' = component w h rm v0 s"
    "\<forall>i. truthy v' i \<longleftrightarrow> truthy v0 i \<or> i \<in> component w h rm v0 s"
    by blast
  then show ?thesis unfolding floodFill_def by simp
qed

section \<open>The loops of the detector\<close>

lemma buildRedMap_truthy:
  assumes "length d = 4 * n" and "length m = n"
  shows "truthy (buildRedMap d (4 * j) m) k \<longleftrightarrow>
           truthy m k \<or> (j \<le> k \<and> k < n \<and> isRedAt d (4 * k))"
  using assms
proof (induction "n - j" arbitrary: j m)
  case 0
  then have "\<not> 4 * j < length d" by simp
  then have "buildRedMap d (4 * j) m = m" by (subst buildRedMap.simps) simp
  with 0 show ?case by auto
next
  case (Suc t)
  then have lt: "4 * j < length d" and j: "j < n" by simp_all
  let ?m = "if isRedAt d (4 * j) then m[(4 * j) div 4 := 1] else m"
  have step: "buildRedMap d (4 * j) m = buildRedMap d (4 * Suc j) ?m"
    using lt by (subst buildRedMap.simps) (simp add: add.commute)
  have "t = n - Suc j" using Suc.hyps(2) by simp
  moreover have "length ?m = n" using Suc.prems by simp
  ultimately have IH: "truthy (buildRedMap d (4 * Suc j) ?m) k \<longleftrightarrow>
      truthy ?m k \<or> (Suc j \<le> k \<and> k < n \<and> isRedAt d (4 * k))"
    using Suc.hyps(1) Suc.prems(1) by blast
  have upd: "truthy ?m k \<longleftrightarrow> truthy m k \<or> (k = j \<and> isRedAt d (4 * j))"
    using j Suc.prems(2) by (auto simp: truthy_update)
  have "j \<le> k \<longleftrightarrow> k = j \<or> Suc j \<le> k" by arith
  then show ?case unfolding step IH upd using j by blast
qed

lemma buildRedMap_none:
  assumes "\<forall>k. \<not> isRedAt d (4 * k)"
  shows "buildRedMap d (4 * j) m = m"
  using assms
proof (induction "length d - 4 * j" arbitrary: j rule: less_induct)
  case less
  show ?case
  proof (cases "4 * j < length d")
    case True
    have "buildRedMap d (4 * j) m = buildRedMap d (4 * Suc j) m"
      using True less.prems by (subst buildRedMap.simps) (simp add: add.commute)
    moreover have "length d - 4 * Suc j < length d - 4 * j" using True by simp
    ultimately show ?thesis using less.hyps[of "Suc j"] less.prems by simp
  next
    case False
    then show ?thesis by (subst buildRedMap.simps) simp
  qed
qed

lemma countRed_none:
  assumes "\<forall>k. \<not> isRedAt d (4 * k)"
  shows "countRed d (4 * j) c = c"
  using assms
proof (induction "length d - 4 * j" arbitrary: j rule: less_induct)
  case less
  show ?case
  proof (cases "4 * j < length d")
    case True
    have "countRed d (4 * j) c = countRed d (4 * Suc j) c"
      using True less.prems by (subst countRed.simps) (simp add: add.commute)
    moreover have "length d - 4 * Suc j < length d - 4 * j" using True by simp
    ultimately show ?thesis using less.hyps[of "Suc j"] less.prems by simp
  next
    case False
    then show ?thesis by (subst countRed.simps) simp
  qed
qed

lemma countRed_card:
  assumes "length d = 4 * n"
  shows "countRed d (4 * j) c = c + card {k. j \<le> k \<and> k < n \<and> isRedAt d (4 * k)}"
  using assms
proof (induction "n - j" arbitrary: j c)
  case 0
  then have "\<not> 4 * j < length d" by simp
  then have "countRed d (4 * j) c = c" by (subst countRed.simps) simp
  moreover have "{k. j \<le> k \<and> k < n \<and> isRedAt d (4 * k)} = {}" using 0 by auto
  ultimately show ?case by simp
next
  case (Suc t)
  then have lt: "4 * j < length d" and j: "j < n" by simp_all
  let ?c = "if isRedAt d (4 * j) then c + 1 else c"
  have step: "countRed d (4 * j) c = countRed d (4 * Suc j) ?c"
    using lt by (subst countRed.simps) (simp add: add.commute)
  have "t = n - Suc j" using Suc.hyps(2) by simp
  then have IH: "countRed d (4 * Suc j) ?c =
      ?c + card {k. Suc j \<le> k \<and> k < n \<and> isRedAt d (4 * k)}"
    using Suc.hyps(1) Suc.prems by blast
  let ?A = "{k. Suc j \<le> k \<and> k < n \<and> isRedAt d (4 * k)}"
  have fin: "finite ?A" by simp
  have split: "{k. j \<le> k \<and> k < n \<and> isRedAt d (4 * k)} =
      (if isRedAt d (4 * j) then insert j ?A else ?A)"
  proof -
    have "j \<le> x \<longleftrightarrow> x = j \<or> Suc j \<le> x" for x by arith
    then show ?thesis using j by auto
  qed
  have "j \<notin> ?A" by simp
  then show ?case unfolding step IH split using fin by simp
qed

lemma clusterLoop_total:
  assumes "length v = w * h" and "\<forall>c \<in> set cs0. 20 < length (pixels c)"
  shows "\<exists>cs. clusterLoop idx w h rm v cs0 = Some cs \<and> (\<forall>c \<in> set cs. 20 < length (pixels c))"
  using assms
proof (induction "w * h - idx" arbitrary: idx v cs0 rule: less_induct)
  case less
  show ?case
  proof (cases "idx < w * h")
    case False
    then have "clusterLoop idx w h rm v cs0 = Some cs0" by (subst clusterLoop.simps) simp
    with less.prems show ?thesis by simp
  next
    case True
    then have dec: "w * h - (idx + 1) < w * h - idx" by simp
    show ?thesis
    proof (cases "truthy rm idx \<and> \<not> truthy v idx")
      case False
      then have "clusterLoop idx w h rm v cs0 = clusterLoop (idx + 1) w h rm v cs0"
        using True by (subst clusterLoop.simps) auto
      with less.hyps[OF dec less.prems] show ?thesis by simp
    next
      case red: True
      then have "\<not> truthy v idx" by simp
      from floodFill_correct[OF less.prems(1) True this, of rm]
      obtain c v' where ff: "floodFill idx w h rm v = Some (c, v')" and len: "length v' = w * h"
        by blast
      let ?cs = "if 20 < length (pixels c) then cs0 @ [c] else cs0"
      have step: "clusterLoop idx w h rm v cs0 = clusterLoop (idx + 1) w h rm v' ?cs"
        using True red ff by (subst clusterLoop.simps) simp
      have "\<forall>c \<in> set ?cs. 20 < length (pixels c)" using less.prems(2) by simp
      from less.hyps[OF dec len this] step show ?thesis by simp
    qed
  qed
qed

lemma clusterLoop_skip:
  assumes "\<forall>i. a \<le> i \<and> i < w * h \<longrightarrow> \<not> (truthy rm i \<and> \<not> truthy v i)"
  shows "clusterLoop a w h rm v cs = Some cs"
  using assms
proof (induction "w * h - a" arbitrary: a rule: less_induct)
  case less
  show ?case
  proof (cases "a < w * h")
    case False
    then show ?thesis by (subst clusterLoop.simps) simp
  next
    case True
    then have "clusterLoop a w h rm v cs = clusterLoop (a + 1) w h rm v cs"
      using less.prems by (subst clusterLoop.simps) auto
    moreover have "w * h - (a + 1) < w * h - a" using True by simp
    ultimately show ?thesis using less.hyps[of "a + 1"] less.prems by simp
  qed
qed

lemma clusterLoop_advance:
  assumes "\<forall>i. a \<le> i \<and> i < b \<longrightarrow> \<not> (truthy rm i \<and> \<not> truthy v i)" and "a \<le> b" and "b \<le> w * h"
  shows "clusterLoop a w h rm v cs = clusterLoop b w h rm v cs"
  using assms
proof (induction "b - a" arbitrary: a rule: less_induct)
  case less
  show ?case
  proof (cases "a < b")
    case False
    with less.prems show ?thesis by simp
  next
    case True
    then have "clusterLoop a w h rm v cs = clusterLoop (a + 1) w h rm v cs"
      using less.prems by (subst clusterLoop.simps) auto
    moreover have "b - (a + 1) < b - a" using True by simp
    ultimately show ?thesis using less.hyps[of "a + 1"] less.prems True by simp
  qed
qed

lemma clusterLoop_none:
  assumes "\<forall>i. \<not> truthy rm i"
  shows "clusterLoop a w h rm v cs = Some cs"
  by (rule clusterLoop_skip) (use assms in simp)

lemma truthy_replicate: "\<not> truthy (replicate n 0) i"
  by (simp add: truthy_def u8get_def)

lemma findClusters_total:
  "\<exists>cs. findClusters img = Some cs \<and> (\<forall>c \<in> set cs. 20 < length (pixels c))"
  unfolding findClusters_def Let_def
  by (rule clusterLoop_total) simp_all

lemma sorted_neg_rev: "sorted (map (\<lambda>n. - int n) ys) \<Longrightarrow> sorted (rev ys)"
  by (induction ys) (auto simp: sorted_append)

lemma sortClusters_counts:
  "map (\<lambda>c. length (pixels c)) (sortClusters cs) = rev (sort (map (\<lambda>c. length (pixels c)) cs))"
proof -
  let ?f = "\<lambda>c. length (pixels c)"
  let ?ys = "map ?f (sortClusters cs)"
  have "sorted (map (\<lambda>c. - int (?f c)) (sortClusters cs))"
    unfolding sortClusters_def by (rule sorted_sort_key)
  then have "sorted (map (\<lambda>n. - int n) ?ys)" by (simp add: comp_def)
  then have "sorted (rev ?ys)" by (rule sorted_neg_rev)
  moreover have "mset (rev ?ys) = mset (map ?f cs)"
    unfolding sortClusters_def by simp
  ultimately have "sort (map ?f cs) = rev ?ys"
    by (rule properties_for_sort[rotated])
  then show ?thesis by simp
qed

text \<open>
  The clusters of a frame share no pixel, hold marker-coloured pixels only, and each lies
  inside one component of the steps the flood fill takes.
\<close>

lemma component_cases:
  assumes "p \<in> component w h rm v0 s"
  shows "p = s \<or> (truthy rm p \<and> \<not> truthy v0 p)"
proof -
  from assms have "(s, p) \<in> (edges w h rm v0)\<^sup>*" by (simp add: component_def)
  then show ?thesis
    by (cases rule: rtranclE) (auto simp: edges_def pushable_def)
qed

lemma component_mono: "component w h rm v0 s \<subseteq> component w h rm [] s"
proof -
  have "edges w h rm v0 \<subseteq> edges w h rm []"
    by (auto simp: edges_def pushable_def truthy_def u8get_def)
  then have "(edges w h rm v0)\<^sup>* \<subseteq> (edges w h rm [])\<^sup>*" by (rule rtrancl_mono)
  then show ?thesis by (auto simp: component_def)
qed

lemma clusterLoop_clusters:
  assumes "length v = w * h"
    and "\<forall>c \<in> set cs0. \<forall>p \<in> set (pixels c). truthy rm p \<and> truthy v p"
    and "distinct (concat (map pixels cs0))"
    and "\<forall>c \<in> set cs0. \<exists>s. set (pixels c) \<subseteq> component w h rm [] s"
  shows "\<exists>cs. clusterLoop idx w h rm v cs0 = Some cs \<and>
           (\<forall>c \<in> set cs. \<forall>p \<in> set (pixels c). truthy rm p) \<and>
           distinct (concat (map pixels cs)) \<and>
           (\<forall>c \<in> set cs. \<exists>s. set (pixels c) \<subseteq> component w h rm [] s)"
  using assms
proof (induction "w * h - idx" arbitrary: idx v cs0 rule: less_induct)
  case less
  show ?case
  proof (cases "idx < w * h")
    case False
    then have "clusterLoop idx w h rm v cs0 = Some cs0" by (subst clusterLoop.simps) simp
    with less.prems show ?thesis by auto
  next
    case True
    then have dec: "w * h - (idx + 1) < w * h - idx" by simp
    show ?thesis
    proof (cases "truthy rm idx \<and> \<not> truthy v idx")
      case False
      then have "clusterLoop idx w h rm v cs0 = clusterLoop (idx + 1) w h rm v cs0"
        using True by (subst clusterLoop.simps) auto
      with less.hyps[OF dec less.prems] show ?thesis by simp
    next
      case red: True
      then have nv: "\<not> truthy v idx" and r: "truthy rm idx" by simp_all
      from floodFill_correct[OF less.prems(1) True nv, of rm]
      obtain c v' where ff: "floodFill idx w h rm v = Some (c, v')" and len: "length v' = w * h"
        and dist: "distinct (pixels c)" and px: "set (pixels c) = component w h rm v idx"
        and vis: "\<forall>i. truthy v' i \<longleftrightarrow> truthy v i \<or> i \<in> component w h rm v idx"
        by blast
      let ?cs = "if 20 < length (pixels c) then cs0 @ [c] else cs0"
      have step: "clusterLoop idx w h rm v cs0 = clusterLoop (idx + 1) w h rm v' ?cs"
        using True red ff by (subst clusterLoop.simps) simp
      have fresh: "truthy rm p \<and> \<not> truthy v p" if "p \<in> set (pixels c)" for p
        using that component_cases[of p w h rm v idx] r nv unfolding px by auto
      have a: "\<forall>c \<in> set ?cs. \<forall>p \<in> set (pixels c). truthy rm p \<and> truthy v' p"
        using less.prems(2) fresh vis px by auto
      have "set (pixels c) \<inter> set (concat (map pixels cs0)) = {}"
        using less.prems(2) fresh by auto
      with dist less.prems(3) have b: "distinct (concat (map pixels ?cs))" by auto
      have "set (pixels c) \<subseteq> component w h rm [] idx"
        unfolding px by (rule component_mono)
      with less.prems(4) have d: "\<forall>c \<in> set ?cs. \<exists>s. set (pixels c) \<subseteq> component w h rm [] s"
        by auto
      from less.hyps[OF dec len a b d] step show ?thesis by simp
    qed
  qed
qed

lemma findClusters_clusters:
  "\<exists>cs. findClusters img = Some cs \<and>
     (\<forall>c \<in> set cs. \<forall>p \<in> set (pixels c).
        truthy (buildRedMap (data img) 0 (replicate (width img * height img) 0)) p) \<and>
     distinct (concat (map pixels cs)) \<and>
     (\<forall>c \<in> set cs. \<exists>s. set (pixels c) \<subseteq>
        component (width img) (height img)
          (buildRedMap (data img) 0 (replicate (width img * height img) 0)) [] s)"
  unfolding findClusters_def Let_def
  by (rule clusterLoop_clusters) simp_all

subsection \<open>Painted frames\<close>

lemma paint_length: "length (data (paintFrame w h red)) = 4 * (w * h)"
proof -
  have "length (concat (map (\<lambda>k. if red k then [255, 0, 0, 255] else [0, 0, 0, 255::nat]) [0..<n]))
      = 4 * n" for n
    by (induction n) simp_all
  then show ?thesis by (simp add: paintFrame_def)
qed

lemma paint_nth:
  assumes "k < n" and "c < 4"
  shows "concat (map (\<lambda>k. if red k then [255, 0, 0, 255] else [0, 0, 0, 255::nat]) [0..<n]) ! (4 * k + c)
      = (if red k then [255, 0, 0, 255] else [0, 0, 0, 255]) ! c"
  using assms
proof (induction n)
  case 0
  then show ?case by simp
next
  case (Suc n)
  let ?f = "\<lambda>k. if red k then [255, 0, 0, 255] else [0, 0, 0, 255::nat]"
  have len: "length (concat (map ?f [0..<n])) = 4 * n" by (induction n) simp_all
  show ?case
  proof (cases "k < n")
    case True
    then have "4 * k + c < 4 * n" using Suc.prems by simp
    with True Suc show ?thesis by (simp add: nth_append len)
  next
    case False
    with Suc.prems have "k = n" by simp
    then show ?thesis using Suc.prems by (simp add: nth_append len)
  qed
qed

lemma paint_red:
  assumes "k < w * h"
  shows "isRedAt (data (paintFrame w h red)) (4 * k) \<longleftrightarrow> red k"
proof -
  let ?d = "data (paintFrame w h red)"
  have l: "length ?d = 4 * (w * h)" by (rule paint_length)
  have n: "?d ! (4 * k + c) = (if red k then [255, 0, 0, 255] else [0, 0, 0, 255]) ! c"
    if "c < 4" for c
    using paint_nth[OF assms that, of red] by (simp add: paintFrame_def)
  from n[of 0] n[of 1] n[of 2] show ?thesis
    using assms l by (simp add: isRedAt_def u8get_def gtU_def ltU_def)
qed

subsection \<open>The frame whose cluster wraps around the row end\<close>

lemma wrap_marker: "markerPixel wrapFrame k \<longleftrightarrow> 11 \<le> k \<and> k < 33"
proof (cases "k < 22 * 2")
  case True
  then show ?thesis
    using paint_red[of k 22 2 "\<lambda>k. 11 \<le> k \<and> k < 33"]
    by (simp add: markerPixel_def wrapFrame_def paintFrame_def)
next
  case False
  then show ?thesis by (simp add: markerPixel_def wrapFrame_def paintFrame_def)
qed

lemma wrap_row0_closed:
  assumes a: "a < 22" and ma: "markerPixel wrapFrame a" and mb: "markerPixel wrapFrame b"
    and adj: "adjacent4 22 a b"
  shows "b < 22"
proof (rule ccontr)
  assume "\<not> b < 22"
  then have b22: "22 \<le> b" by simp
  from mb have b33: "b < 33" by (simp add: wrap_marker)
  from b22 obtain c where c: "b = 22 + c" using le_Suc_ex by blast
  with b33 have c11: "c < 11" by simp
  have bd: "b div 22 = 1" and bm: "b mod 22 = c" using c c11 by simp_all
  from a have ad: "a div 22 = 0" and am: "a mod 22 = a" by simp_all
  from adj have "a = c" unfolding adjacent4_def ad am bd bm by simp
  with ma c11 show False by (simp add: wrap_marker)
qed

lemma wrap_row0_reach:
  assumes "(a, z) \<in> {(a, b). markerPixel wrapFrame a \<and> markerPixel wrapFrame b \<and>
      adjacent4 22 a b}\<^sup>*" and "a < 22"
  shows "z < 22"
  using assms
proof (induction rule: rtrancl_induct)
  case base
  then show ?case by simp
next
  case (step y z)
  then show ?case using wrap_row0_closed[of y z] by simp
qed

lemma wrap_not_joined: "\<not> joined4 wrapFrame 21 22"
proof
  assume "joined4 wrapFrame 21 22"
  then have "(21, 22) \<in> {(a, b). markerPixel wrapFrame a \<and> markerPixel wrapFrame b \<and>
      adjacent4 22 a b}\<^sup>*"
    by (simp add: joined4_def wrapFrame_def paintFrame_def)
  from wrap_row0_reach[OF this] show False by simp
qed

lemma wrap_clusters:
  "findClusters wrapFrame =
     Some [\<lparr>pixels = [11..<33], centerX = Num (21 / 2), centerY = Num (1 / 2)\<rparr>]"
  by code_simp

text \<open>
  Claim C1 says that every returned cluster is a 4-connected component of the
  marker-coloured mask: any two of its pixels are joined by a chain of horizontally or
  vertically adjacent marker-coloured pixels. The neighbour test of \<open>floodFill\<close> takes
  \<open>idx - 1\<close> and \<open>idx + 1\<close> as left and right neighbours without looking at the row, so
  the last pixel of a row and the first pixel of the next row count as adjacent. On
  \<open>wrapFrame\<close> the code finds one cluster of 22 pixels, which \<open>detect\<close> returns, and it
  holds pixel 21 (column 21 of row 0) and pixel 22 (column 0 of row 1); both are
  marker-coloured, and no chain of 4-adjacent marker-coloured pixels joins them. The
  other two parts of the claim hold for every frame (\<open>findClusters_clusters\<close>).
\<close>

theorem row_wrap_cluster:
  "findClusters wrapFrame =
     Some [\<lparr>pixels = [11..<33], centerX = Num (21 / 2), centerY = Num (1 / 2)\<rparr>] \<and>
   map pixelCount (case detect True wrapFrame of None \<Rightarrow> [] | Some ds \<Rightarrow> ds) = [22] \<and>
   markerPixel wrapFrame 21 \<and> markerPixel wrapFrame 22 \<and> \<not> joined4 wrapFrame 21 22"
proof -
  note c = wrap_clusters
  have "detect True wrapFrame = Some (map toDetection
      [\<lparr>pixels = [11..<33], centerX = Num (21 / 2), centerY = Num (1 / 2)\<rparr>])"
    by (simp add: detect_def findRedMarkers_def c sortClusters_def)
  then have d: "map pixelCount (case detect True wrapFrame of None \<Rightarrow> [] | Some ds \<Rightarrow> ds) = [22]"
    by (simp add: toDetection_def)
  from c d wrap_not_joined show ?thesis by (simp add: wrap_marker)
qed

text \<open>
  Claim C3. For every frame the multi-cluster \<open>detect\<close> returns (it does not loop), and
  what it returns has at most 4 detections, has pixel counts in descending order, has no
  detection of 20 pixels or fewer, and its pixel counts are the first four of the
  qualifying clusters' sizes sorted in descending order: when more than four clusters
  qualify, the four largest are returned.
\<close>

theorem detect_sorted_capped:
  "\<exists>cs ds. findClusters img = Some cs \<and> detect True img = Some ds \<and>
     length ds \<le> 4 \<and>
     sorted_wrt (\<lambda>a b. a \<ge> b) (map pixelCount ds) \<and>
     (\<forall>d \<in> set ds. 20 < pixelCount d) \<and>
     map pixelCount ds = take 4 (rev (sort (map (\<lambda>c. length (pixels c)) cs)))"
proof -
  obtain cs where cs: "findClusters img = Some cs" and big: "\<forall>c \<in> set cs. 20 < length (pixels c)"
    using findClusters_total by blast
  let ?ds = "map toDetection (take 4 (sortClusters cs))"
  have ds: "detect True img = Some ?ds"
    by (simp add: detect_def findRedMarkers_def cs)
  have "map pixelCount ?ds = take 4 (map (\<lambda>c. length (pixels c)) (sortClusters cs))"
    by (simp add: comp_def toDetection_def take_map)
  then have pc: "map pixelCount ?ds = take 4 (rev (sort (map (\<lambda>c. length (pixels c)) cs)))"
    by (simp only: sortClusters_counts)
  have "sorted (sort (map (\<lambda>c. length (pixels c)) cs))" by simp
  then have "sorted_wrt (\<lambda>a b. a \<ge> b) (rev (sort (map (\<lambda>c. length (pixels c)) cs)))"
    by (simp add: sorted_wrt_rev)
  then have srt: "sorted_wrt (\<lambda>a b. a \<ge> b) (map pixelCount ?ds)"
    unfolding pc by (rule sorted_wrt_take)
  have "set (take 4 (sortClusters cs)) \<subseteq> set cs"
    using set_take_subset[of 4 "sortClusters cs"] by (simp add: sortClusters_def)
  with big have bigd: "\<forall>d \<in> set ?ds. 20 < pixelCount d"
    by (auto simp: toDetection_def)
  show ?thesis using cs ds pc srt bigd by (intro exI[of _ cs] exI[of _ ?ds]) simp
qed

text \<open>
  On \<open>wrapFrame\<close> the returned sequence is not empty, so the bound on the pixel count
  speaks about a detection that exists.
\<close>

theorem detect_sorted_capped_witness:
  "\<exists>ds. detect True wrapFrame = Some ds \<and> ds \<noteq> [] \<and> length ds \<le> 4 \<and>
     list_all (\<lambda>d. 20 < pixelCount d) ds"
proof -
  from wrap_clusters have "\<exists>d. detect True wrapFrame = Some [d]"
    by (simp add: detect_def findRedMarkers_def sortClusters_def)
  with detect_sorted_capped[of wrapFrame] show ?thesis
    by (auto simp: list_all_iff)
qed

text \<open>
  Claim C4. On a frame with no marker-coloured pixel (at no pixel offset \<open>4 * k\<close> does
  the colour test hold) the multi-cluster \<open>detect\<close> returns the empty sequence and the
  single-ratio variant reports \<open>found = false\<close>. A frame of width or height 0 has no
  data and therefore no marker-coloured pixel: both variants return the same results; the
  ratio of the single-ratio variant is then \<open>0 / 0\<close>, which is NaN and compares false,
  and nothing is thrown.
\<close>

theorem no_marker_pixels:
  "((\<forall>k. \<not> isRedAt (data img) (4 * k)) \<longrightarrow>
      detect ready img = Some [] \<and> \<not> found (detectRatio ready img)) \<and>
   (length (data img) = 4 * (width img * height img) \<and> (width img = 0 \<or> height img = 0) \<longrightarrow>
      detect ready img = Some [] \<and> \<not> found (detectRatio ready img))"
proof -
  have main: "detect ready img = Some [] \<and> \<not> found (detectRatio ready img)"
    if none: "\<forall>k. \<not> isRedAt (data img) (4 * k)"
  proof -
    have rm: "buildRedMap (data img) 0 m = m" for m
      using buildRedMap_none[OF none, of 0 m] by simp
    have "findClusters img = Some []"
      unfolding findClusters_def Let_def rm
      by (rule clusterLoop_none) (simp add: truthy_replicate)
    then have d: "detect ready img = Some []"
      by (simp add: detect_def findRedMarkers_def sortClusters_def)
    have "countRed (data img) 0 0 = 0"
      using countRed_none[OF none, of 0 0] by simp
    then have "\<not> found (detectRatio ready img)"
      by (simp add: detectRatio_def jsdiv_def Let_def)
    with d show ?thesis by simp
  qed
  have "\<forall>k. \<not> isRedAt (data img) (4 * k)"
    if "length (data img) = 4 * (width img * height img)" "width img = 0 \<or> height img = 0"
    using that by (auto simp: isRedAt_def u8get_def gtU_def)
  with main show ?thesis by blast
qed

text \<open>
  A black frame of 3 by 2 pixels and a frame of width 0.
\<close>

theorem no_marker_pixels_witness:
  "(\<forall>k. \<not> isRedAt (data (paintFrame 3 2 (\<lambda>k. False))) (4 * k)) \<and>
   detect True (paintFrame 3 2 (\<lambda>k. False)) = Some [] \<and>
   \<not> found (detectRatio True (paintFrame 3 2 (\<lambda>k. False))) \<and>
   length (data (paintFrame 0 5 (\<lambda>k. False))) = 4 * (0 * 5) \<and>
   detect True (paintFrame 0 5 (\<lambda>k. False)) = Some [] \<and>
   \<not> found (detectRatio True (paintFrame 0 5 (\<lambda>k. False)))"
proof -
  have n: "\<forall>k. \<not> isRedAt (data (paintFrame 3 2 (\<lambda>k. False))) (4 * k)"
  proof
    fix k
    show "\<not> isRedAt (data (paintFrame 3 2 (\<lambda>k. False))) (4 * k)"
    proof (cases "k < 3 * 2")
      case True
      then show ?thesis by (simp add: paint_red)
    next
      case False
      then have "\<not> 4 * k < length (data (paintFrame 3 2 (\<lambda>k. False)))"
        by (simp add: paint_length)
      then show ?thesis by (simp add: isRedAt_def u8get_def gtU_def)
    qed
  qed
  have l: "length (data (paintFrame 0 5 (\<lambda>k. False))) =
      4 * (width (paintFrame 0 5 (\<lambda>k. False)) * height (paintFrame 0 5 (\<lambda>k. False)))"
    and z: "width (paintFrame 0 5 (\<lambda>k. False)) = 0"
    by (simp_all add: paintFrame_def)
  from no_marker_pixels[of "paintFrame 3 2 (\<lambda>k. False)" True]
    no_marker_pixels[of "paintFrame 0 5 (\<lambda>k. False)" True] n l z
  show ?thesis by (simp add: paintFrame_def)
qed

subsection \<open>The 100 by 100 scenario\<close>

text \<open>
  A square with corners at (10, 10) and (\<open>hi\<close>, \<open>hi\<close>) in a 100 by 100 frame, as the
  only marker-coloured region: one cluster, found from its first pixel 1010, with
  \<open>(hi - 10)\<^sup>2\<close> pixels.
\<close>

lemma inSquare_inBox: "inSquare k = inBox 30 k"
  by (simp add: inSquare_def inBox_def)

lemma inBox_bound: "hi \<le> 100 \<Longrightarrow> inBox hi k \<Longrightarrow> k < 10000"
proof -
  assume "hi \<le> 100" "inBox hi k"
  then have "k div 100 < 100" by (simp add: inBox_def)
  then have "k < 100 * 100" by (simp add: div_less_iff_less_mult)
  then show ?thesis by simp
qed

lemma inBox_first: "k < 1010 \<Longrightarrow> \<not> inBox hi k"
proof
  assume k: "k < 1010" and sq: "inBox hi k"
  from sq have "10 \<le> k div 100" "10 \<le> k mod 100" by (simp_all add: inBox_def)
  then have "10 * 100 \<le> k" by (simp add: less_eq_div_iff_mult_less_eq)
  then obtain j where j: "k = 1000 + j" using le_Suc_ex[of 1000 k] by auto
  with k have "j < 10" by simp
  with j have "k mod 100 = j" using mod_mult_self4[of 100 10 j] by simp
  with \<open>j < 10\<close> \<open>10 \<le> k mod 100\<close> show False by simp
qed

lemma square_inj_aux:
  fixes r c r' c' :: nat
  assumes "c < 100" "c' < 100" "100 * r + c = 100 * r' + c'"
  shows "r = r' \<and> c = c'"
proof -
  from assms(3) have "(100 * r + c) mod 100 = (100 * r' + c') mod 100" by simp
  with assms(1,2) have c: "c = c'" by simp
  with assms(3) show ?thesis by simp
qed

lemma inBox_xy:
  "c < 100 \<Longrightarrow> inBox hi (100 * r + c) \<longleftrightarrow> 10 \<le> c \<and> c < hi \<and> 10 \<le> r \<and> r < hi"
  by (simp add: inBox_def)

lemma box_image:
  assumes "hi \<le> 100"
  shows "{k. inBox hi k} = (\<lambda>(r, c). 100 * r + c) ` ({10..<hi} \<times> {10..<hi})"
proof (intro equalityI subsetI)
  fix k :: nat assume "k \<in> {k. inBox hi k}"
  then have "(k div 100, k mod 100) \<in> {10..<hi} \<times> {10..<hi}"
    by (simp add: inBox_def)
  moreover have "k = (\<lambda>(r, c). 100 * r + c) (k div 100, k mod 100)" by simp
  ultimately show "k \<in> (\<lambda>(r, c). 100 * r + c) ` ({10..<hi} \<times> {10..<hi})"
    by (rule rev_image_eqI)
next
  fix k :: nat assume "k \<in> (\<lambda>(r, c). 100 * r + c) ` ({10..<hi} \<times> {10..<hi})"
  then show "k \<in> {k. inBox hi k}" using assms by (auto simp: inBox_xy)
qed

lemma box_inj:
  assumes "hi \<le> 100"
  shows "inj_on (\<lambda>(r, c). 100 * r + c) ({10..<hi} \<times> {10..<hi :: nat})"
proof (rule inj_onI, clarify)
  fix r c r' c' :: nat
  assume b: "c \<in> {10..<hi}" "c' \<in> {10..<hi}" and eq: "100 * r + c = 100 * r' + c'"
  from b assms have "c < 100" "c' < 100" by simp_all
  with eq show "r = r' \<and> c = c'" by (intro square_inj_aux)
qed

lemma box_card:
  assumes "hi \<le> 100"
  shows "card {k. inBox hi k} = (hi - 10) * (hi - 10)"
  unfolding box_image[OF assms] by (simp add: card_image[OF box_inj[OF assms]])

lemma box_sum_x:
  assumes "hi \<le> 100"
  shows "(\<Sum>k \<in> {k. inBox hi k}. k mod 100) = (hi - 10) * (\<Sum>c = 10..<hi. c)"
proof -
  have "(\<Sum>k \<in> {k. inBox hi k}. k mod 100) =
        (\<Sum>p \<in> {10..<hi} \<times> {10..<hi}. (case p of (r, c) \<Rightarrow> 100 * r + c) mod 100)"
    unfolding box_image[OF assms] by (simp add: sum.reindex[OF box_inj[OF assms]] comp_def)
  also have "\<dots> = (\<Sum>p \<in> {10..<hi} \<times> {10..<hi}. snd p)"
    by (rule sum.cong) (use assms in auto)
  also have "\<dots> = (\<Sum>r = 10..<hi. \<Sum>c = 10..<hi. c)"
    by (subst sum.cartesian_product) (simp add: case_prod_unfold)
  also have "\<dots> = (hi - 10) * (\<Sum>c = 10..<hi. c)" by simp
  finally show ?thesis .
qed

lemma box_sum_y:
  assumes "hi \<le> 100"
  shows "(\<Sum>k \<in> {k. inBox hi k}. k div 100) = (hi - 10) * (\<Sum>c = 10..<hi. c)"
proof -
  have "(\<Sum>k \<in> {k. inBox hi k}. k div 100) =
        (\<Sum>p \<in> {10..<hi} \<times> {10..<hi}. (case p of (r, c) \<Rightarrow> 100 * r + c) div 100)"
    unfolding box_image[OF assms] by (simp add: sum.reindex[OF box_inj[OF assms]] comp_def)
  also have "\<dots> = (\<Sum>p \<in> {10..<hi} \<times> {10..<hi}. fst p)"
    by (rule sum.cong) (use assms in auto)
  also have "\<dots> = (\<Sum>r = 10..<hi. \<Sum>c = 10..<hi. r)"
    by (subst sum.cartesian_product) (simp add: case_prod_unfold)
  also have "\<dots> = (hi - 10) * (\<Sum>r = 10..<hi. r)" by (simp add: sum_distrib_left)
  finally show ?thesis .
qed

lemma edge_offset:
  assumes rm: "truthy rm (i + d)" and v0: "\<not> truthy v0 (i + d)" and b: "i + d < w * h"
    and d: "d = 1 \<or> d = w"
  shows "(i, i + d) \<in> edges w h rm v0"
proof -
  have "int (i + d) \<in> set (neighbors i w)" using d by (auto simp: neighbors_def)
  moreover have "pushable w h rm v0 (int (i + d))"
    unfolding pushable_def using rm v0 b by (simp del: of_nat_add of_nat_mult)
  moreover have "i + d = nat (int (i + d))" by simp
  ultimately show ?thesis unfolding edges_def by blast
qed

lemma box_component:
  assumes rm: "\<forall>k. truthy rm k \<longleftrightarrow> inBox hi k" and lo: "10 < hi" and hi: "hi \<le> 100"
  shows "component 100 100 rm (replicate 10000 0) 1010 = {k. inBox hi k}"
proof (intro equalityI)
  let ?v0 = "replicate 10000 (0::nat)"
  let ?E = "edges 100 100 rm ?v0"
  show "component 100 100 rm ?v0 1010 \<subseteq> {k. inBox hi k}"
  proof (rule component_closed)
    show "1010 \<in> {k. inBox hi k}" using lo by (simp add: inBox_def)
    show "\<forall>p \<in> {k. inBox hi k}. \<forall>j. (p, j) \<in> ?E \<longrightarrow> j \<in> {k. inBox hi k}"
      using rm by (auto simp: edges_def pushable_def)
  qed
  have step: "(i, i + d) \<in> ?E" if "inBox hi (i + d)" "d = 1 \<or> d = 100" for i d
  proof (rule edge_offset)
    show "truthy rm (i + d)" using that(1) rm by simp
    show "\<not> truthy ?v0 (i + d)" by (rule truthy_replicate)
    show "i + d < 100 * 100" using inBox_bound[OF hi that(1)] by simp
    show "d = 1 \<or> d = 100" by (rule that(2))
  qed
  have row: "(1010, 1010 + a) \<in> ?E\<^sup>*" if "10 + a < hi" for a
    using that
  proof (induction a)
    case 0
    show ?case by simp
  next
    case (Suc a)
    have eq: "1010 + a + 1 = 100 * 10 + (11 + a)" by simp
    have "inBox hi (1010 + a + 1)"
      unfolding eq using Suc.prems hi by (subst inBox_xy) simp_all
    then have "(1010 + a, 1010 + a + 1) \<in> ?E" by (rule step) simp
    moreover have "(1010, 1010 + a) \<in> ?E\<^sup>*" using Suc by simp
    ultimately have "(1010, 1010 + a + 1) \<in> ?E\<^sup>*" by (rule rtrancl_into_rtrancl[rotated])
    then show ?case by simp
  qed
  have col: "(1010, 1010 + a + 100 * b) \<in> ?E\<^sup>*" if "10 + a < hi" "10 + b < hi" for a b
    using that
  proof (induction b)
    case 0
    then show ?case using row[of a] by simp
  next
    case (Suc b)
    have eq: "1010 + a + 100 * b + 100 = 100 * (11 + b) + (10 + a)" by simp
    have "inBox hi (1010 + a + 100 * b + 100)"
      unfolding eq using Suc.prems hi by (subst inBox_xy) simp_all
    then have "(1010 + a + 100 * b, 1010 + a + 100 * b + 100) \<in> ?E" by (rule step) simp
    moreover have "(1010, 1010 + a + 100 * b) \<in> ?E\<^sup>*" using Suc by simp
    ultimately have "(1010, 1010 + a + 100 * b + 100) \<in> ?E\<^sup>*"
      by (rule rtrancl_into_rtrancl[rotated])
    then show ?case by simp
  qed
  show "{k. inBox hi k} \<subseteq> component 100 100 rm ?v0 1010"
  proof
    fix k :: nat assume "k \<in> {k. inBox hi k}"
    then have sq: "inBox hi k" by simp
    define q where "q = k div 100"
    define r where "r = k mod 100"
    have k: "k = 100 * q + r" unfolding q_def r_def by simp
    from sq have b: "10 \<le> r" "r < hi" "10 \<le> q" "q < hi"
      unfolding q_def r_def inBox_def by simp_all
    from b have "10 + (r - 10) < hi" "10 + (q - 10) < hi" by simp_all
    from col[OF this] have "(1010, 1010 + (r - 10) + 100 * (q - 10)) \<in> ?E\<^sup>*" .
    moreover have "1010 + (r - 10) + 100 * (q - 10) = k" unfolding k using b by simp
    ultimately show "k \<in> component 100 100 rm ?v0 1010"
      unfolding component_def by simp
  qed
qed

lemma box_clusters:
  assumes rm: "\<forall>k. truthy rm k \<longleftrightarrow> inBox hi k" and lo: "10 < hi" and hi: "hi \<le> 100"
    and big: "20 < (hi - 10) * (hi - 10)"
  shows "\<exists>c. clusterLoop 0 100 100 rm (replicate 10000 0) [] = Some [c] \<and>
           length (pixels c) = (hi - 10) * (hi - 10) \<and>
           centerX c = jsdiv ((hi - 10) * (\<Sum>c = 10..<hi. c)) ((hi - 10) * (hi - 10)) \<and>
           centerY c = jsdiv ((hi - 10) * (\<Sum>c = 10..<hi. c)) ((hi - 10) * (hi - 10))"
proof -
  let ?v0 = "replicate 10000 (0::nat)"
  have "\<forall>i. 0 \<le> i \<and> i < 1010 \<longrightarrow> \<not> (truthy rm i \<and> \<not> truthy ?v0 i)"
    using rm inBox_first by auto
  then have adv: "clusterLoop 0 100 100 rm ?v0 [] = clusterLoop 1010 100 100 rm ?v0 []"
    by (rule clusterLoop_advance) simp_all
  have nv: "\<not> truthy ?v0 1010" by (rule truthy_replicate)
  have red: "truthy rm 1010" using rm lo by (simp add: inBox_def)
  from floodFill_correct[of ?v0 100 100 1010 rm] nv
  obtain c v' where ff: "floodFill 1010 100 100 rm ?v0 = Some (c, v')"
    and len: "length v' = 100 * 100" and dist: "distinct (pixels c)"
    and px: "set (pixels c) = component 100 100 rm ?v0 1010"
    and cx: "centerX c = jsdiv (sum_list (map (\<lambda>p. p mod 100) (pixels c))) (length (pixels c))"
    and cy: "centerY c = jsdiv (sum_list (map (\<lambda>p. p div 100) (pixels c))) (length (pixels c))"
    and vis: "\<forall>i. truthy v' i \<longleftrightarrow> truthy ?v0 i \<or> i \<in> component 100 100 rm ?v0 1010"
    by auto
  have comp: "component 100 100 rm ?v0 1010 = {k. inBox hi k}"
    by (rule box_component[OF rm lo hi])
  have n: "length (pixels c) = (hi - 10) * (hi - 10)"
    using distinct_card[OF dist] px comp box_card[OF hi] by simp
  have sx: "sum_list (map (\<lambda>p. p mod 100) (pixels c)) = (hi - 10) * (\<Sum>c = 10..<hi. c)"
    using sum_list_distinct_conv_sum_set[OF dist, of "\<lambda>p. p mod 100"] px comp box_sum_x[OF hi]
    by simp
  have sy: "sum_list (map (\<lambda>p. p div 100) (pixels c)) = (hi - 10) * (\<Sum>c = 10..<hi. c)"
    using sum_list_distinct_conv_sum_set[OF dist, of "\<lambda>p. p div 100"] px comp box_sum_y[OF hi]
    by simp
  have step: "clusterLoop 1010 100 100 rm ?v0 [] = clusterLoop (1010 + 1) 100 100 rm v' [c]"
    using ff red nv n big by (subst clusterLoop.simps) simp
  have rest: "clusterLoop (1010 + 1) 100 100 rm v' [c] = Some [c]"
    by (rule clusterLoop_skip) (use vis comp rm in auto)
  from adv step rest n cx cy sx sy show ?thesis by simp
qed

lemma box_scenario:
  assumes w: "width img = 100" and h: "height img = 100"
    and len: "length (data img) = 40000"
    and red: "\<forall>k < 10000. isRedAt (data img) (4 * k) \<longleftrightarrow> inBox hi k"
    and lo: "20 < hi" and hi: "hi \<le> 100"
  shows "\<exists>d. detect True img = Some [d] \<and>
           det_x d = jsdiv ((hi - 10) * (\<Sum>c = 10..<hi. c)) ((hi - 10) * (hi - 10)) \<and>
           det_y d = jsdiv ((hi - 10) * (\<Sum>c = 10..<hi. c)) ((hi - 10) * (hi - 10)) \<and>
           pixelCount d = (hi - 10) * (hi - 10) \<and> det_size d = (hi - 10) * (hi - 10) \<and>
           found (detectRatio True img)"
proof -
  let ?rm = "buildRedMap (data img) 0 (replicate 10000 0)"
  have len4: "length (data img) = 4 * 10000" using len by simp
  have rm: "\<forall>k. truthy ?rm k \<longleftrightarrow> inBox hi k"
  proof
    fix k
    have "truthy (buildRedMap (data img) (4 * 0) (replicate 10000 0)) k \<longleftrightarrow>
        truthy (replicate 10000 0) k \<or> (0 \<le> k \<and> k < 10000 \<and> isRedAt (data img) (4 * k))"
      by (rule buildRedMap_truthy[OF len4]) simp
    then show "truthy ?rm k \<longleftrightarrow> inBox hi k"
      using red inBox_bound[OF hi, of k] by (auto simp: truthy_replicate)
  qed
  from lo have "10 < hi - 10" by simp
  then have "10 * 10 < (hi - 10) * (hi - 10)" by (intro mult_strict_mono) simp_all
  then have area: "100 < (hi - 10) * (hi - 10)" by simp
  then have big: "20 < (hi - 10) * (hi - 10)" by simp
  from lo have lo': "10 < hi" by simp
  from box_clusters[OF rm lo' hi big] obtain c where
    cl: "clusterLoop 0 100 100 ?rm (replicate 10000 0) [] = Some [c]"
    and c: "length (pixels c) = (hi - 10) * (hi - 10)"
      "centerX c = jsdiv ((hi - 10) * (\<Sum>c = 10..<hi. c)) ((hi - 10) * (hi - 10))"
      "centerY c = jsdiv ((hi - 10) * (\<Sum>c = 10..<hi. c)) ((hi - 10) * (hi - 10))"
    by blast
  have "findClusters img = Some [c]"
    unfolding findClusters_def Let_def w h using cl by simp
  then have det: "detect True img = Some [toDetection c]"
    by (simp add: detect_def findRedMarkers_def sortClusters_def)
  have "{k. 0 \<le> k \<and> k < 10000 \<and> isRedAt (data img) (4 * k)} = {k. inBox hi k}"
    using red inBox_bound[OF hi] by auto
  then have "countRed (data img) (4 * 0) 0 = 0 + card {k. inBox hi k}"
    using countRed_card[OF len4, of 0 0] by simp
  then have "countRed (data img) 0 0 = (hi - 10) * (hi - 10)" by (simp add: box_card[OF hi])
  then have "found (detectRatio True img)"
    using area by (simp add: detectRatio_def Let_def w h jsdiv_def)
  with det c show ?thesis by (simp add: toDetection_def)
qed

lemma sum_10_30: "(\<Sum>c = 10..<30. c) = (390::nat)"
  by code_simp

lemma sum_10_31: "(\<Sum>c = 10..<31. c) = (420::nat)"
  by code_simp

text \<open>
  Were the far corner pixel (30, 30) part of the square, it would have 441 pixels, and
  the detection would have pixel count 441 and centroid (20, 20).
\<close>

lemma inclusive_square:
  assumes "width img = 100" and "height img = 100" and "length (data img) = 40000"
    and "\<forall>k < 10000. isRedAt (data img) (4 * k) \<longleftrightarrow> inBox 31 k"
  shows "\<exists>d. detect True img = Some [d] \<and> det_x d = Num 20 \<and> det_y d = Num 20 \<and>
           pixelCount d = 441 \<and> found (detectRatio True img)"
  using box_scenario[OF assms] by (auto simp: sum_10_31 jsdiv_def)

text \<open>
  Claim C5. The scenario's square of 400 pixels is the one with both coordinates from 10
  up to, not including, 30 (\<open>inSquare\<close>), which is what its pixel-mass 400 fixes. For
  every 100 by 100 frame whose marker-coloured pixels are exactly that square, the
  multi-cluster \<open>detect\<close> returns exactly one detection, with pixel count 400 and
  centroid (19.5, 19.5), half a pixel from (20, 20) in each coordinate, and the
  single-ratio variant reports \<open>found = true\<close>.
\<close>

theorem square_scenario:
  assumes w: "width img = 100" and h: "height img = 100"
    and len: "length (data img) = 40000"
    and red: "\<forall>k < 10000. isRedAt (data img) (4 * k) \<longleftrightarrow> inSquare k"
  shows "\<exists>d. detect True img = Some [d] \<and>
           det_x d = Num (39 / 2) \<and> det_y d = Num (39 / 2) \<and>
           pixelCount d = 400 \<and> det_size d = 400 \<and>
           found (detectRatio True img)"
proof -
  from red have "\<forall>k < 10000. isRedAt (data img) (4 * k) \<longleftrightarrow> inBox 30 k"
    by (simp add: inSquare_inBox)
  from box_scenario[OF w h len this] show ?thesis
    by (auto simp: sum_10_30 jsdiv_def)
qed

text \<open>
  The frame painted red on the square and black elsewhere satisfies the hypotheses.
\<close>

theorem square_scenario_witness:
  "width squareFrame = 100 \<and> height squareFrame = 100 \<and>
   length (data squareFrame) = 40000 \<and>
   (\<exists>d. detect True squareFrame = Some [d] \<and> pixelCount d = 400 \<and>
        found (detectRatio True squareFrame))"
proof -
  have w: "width squareFrame = 100" and h: "height squareFrame = 100"
    by (simp_all add: squareFrame_def paintFrame_def)
  have len: "length (data squareFrame) = 40000"
    unfolding squareFrame_def by (simp add: paint_length)
  have red: "\<forall>k < 10000. isRedAt (data squareFrame) (4 * k) \<longleftrightarrow> inSquare k"
    unfolding squareFrame_def by (simp add: paint_red)
  from square_scenario[OF w h len red] w h len show ?thesis by blast
qed

section \<open>The tracking state machine\<close>

lemma playVideo_visible: "visible (playVideo m) = visible m"
  by (simp add: playVideo_def split: option.split)

lemma pauseVideo_visible: "visible (pauseVideo m) = visible m"
  by (simp add: pauseVideo_def split: option.split)

lemma onMarkerFound_flag: "isMarkerDetected (onMarkerFound s) = isMarkerDetected s"
  by (simp add: onMarkerFound_def split: option.split)

lemma onMarkerLost_flag: "isMarkerDetected (onMarkerLost s) = isMarkerDetected s"
  by (simp add: onMarkerLost_def split: option.split)

lemma giveUpMarker_events:
  "snd (giveUpMarker s g) =
     transitionEvents (isMarkerDetected s) (isMarkerDetected (fst (giveUpMarker s g)))"
  by (simp add: giveUpMarker_def transitionEvents_def onMarkerLost_flag)

lemma applyTransform_events:
  "snd (applyTransform s g env) =
     transitionEvents (isMarkerDetected s) (isMarkerDetected (fst (applyTransform s g env)))"
  by (auto simp: applyTransform_def giveUpMarker_events Let_def onMarkerFound_flag
      transitionEvents_def split: sum.split prod.split)

lemma noMarkers_events:
  "snd (noMarkers s) =
     transitionEvents (isMarkerDetected s) (isMarkerDetected (fst (noMarkers s)))"
  by (auto simp: noMarkers_def Let_def onMarkerLost_flag transitionEvents_def split: option.split)

lemma processFrame_events:
  "fst (snd (processFrame s env)) =
     transitionEvents (isMarkerDetected s) (isMarkerDetected (fst (processFrame s env)))"
proof -
  have idle: "[] = transitionEvents (isMarkerDetected s) (isMarkerDetected s)"
    by (simp add: transitionEvents_def)
  show ?thesis
    unfolding processFrame_def
    using idle applyTransform_events[of s _ env] noMarkers_events[of s]
    by (auto simp: case_prod_unfold Let_def split: option.split sum.split)
qed

lemma updateFPS_flag: "isMarkerDetected (updateFPS s t) = isMarkerDetected s"
  by (simp add: updateFPS_def Let_def)

lemma animate_flag:
  "isMarkerDetected (app (animate s env)) = isMarkerDetected (fst (processFrame s env))"
  by (simp add: animate_def case_prod_unfold Let_def updateFPS_flag split: option.split)

lemma animate_events_fst: "events (animate s env) = fst (snd (processFrame s env))"
  by (simp add: animate_def case_prod_unfold Let_def)

lemma animate_events:
  "events (animate s env) =
     transitionEvents (isMarkerDetected s) (isMarkerDetected (app (animate s env)))"
  by (simp only: animate_flag animate_events_fst processFrame_events)

lemma arTrace_events:
  "map (\<lambda>(b, evs, a). evs) (arTrace s envs) =
     map (\<lambda>(b, evs, a). transitionEvents b a) (arTrace s envs)"
  by (induction envs arbitrary: s) (simp_all add: Let_def animate_events)

lemma updateCameraPose_flag:
  "isTracking (fst (updateCameraPose lib s rv tv)) = isTracking s"
  by (simp add: updateCameraPose_def Let_def split: sum.splits prod.splits)

lemma updateCameraPose_video:
  "userDataVideo (arVideo (fst (updateCameraPose lib s rv tv))) = userDataVideo (arVideo s)"
  by (simp add: updateCameraPose_def Let_def split: sum.splits prod.splits)

lemma detectMarker_found:
  "isTracking (fst (detectMarker lib s (Found rv tv))) \<and>
   fst (snd (detectMarker lib s (Found rv tv))) = (if isTracking s then [] else [MarkerFound])"
  by (simp add: detectMarker_def case_prod_unfold Let_def updateCameraPose_flag
      heuristicMarkerFound_def)

lemma detectMarker_events:
  "fst (snd (detectMarker rot s r)) =
     transitionEvents (isTracking s) (isTracking (fst (detectMarker rot s r)))"
  by (cases r)
    (simp_all add: detectMarker_def transitionEvents_def case_prod_unfold Let_def
      updateCameraPose_flag heuristicMarkerFound_def heuristicMarkerLost_def)

lemma heuristicTick_events:
  "fst (snd (heuristicTick rot s i)) =
     transitionEvents (isTracking s) (isTracking (fst (heuristicTick rot s i)))"
  by (cases i) (simp_all add: heuristicTick_def detectMarker_events transitionEvents_def)

lemma heuristicTrace_events:
  "map (\<lambda>(b, evs, a). evs) (heuristicTrace rot s is) =
     map (\<lambda>(b, evs, a). transitionEvents b a) (heuristicTrace rot s is)"
  by (induction "is" arbitrary: s) (simp_all add: case_prod_unfold Let_def heuristicTick_events)

lemma lost_tick_ar:
  "isMarkerDetected (app (animate (s\<lparr>isMarkerDetected := False\<rparr>) env)) = poseResolved s env"
  unfolding animate_flag
  by (auto simp: processFrame_def poseResolved_def applyTransform_def giveUpMarker_def
      noMarkers_def Let_def onMarkerFound_flag onMarkerLost_flag case_prod_unfold
      split: option.split sum.split)

lemma animate_static:
  "arController (app (animate s env)) = arController s \<and>
   videoElement (app (animate s env)) = videoElement s \<and>
   (markerGroup (app (animate s env)) = None \<longleftrightarrow> markerGroup s = None)"
  by (auto simp: animate_def processFrame_def applyTransform_def giveUpMarker_def noMarkers_def
      onMarkerFound_def onMarkerLost_def updateFPS_def Let_def case_prod_unfold
      split: option.split sum.split)

lemma poseResolved_static:
  "poseResolved (app (animate s env)) env' = poseResolved s env'"
proof -
  from animate_static[of s env]
  have a: "arController (app (animate s env)) = arController s"
    and v: "videoElement (app (animate s env)) = videoElement s"
    and g: "(markerGroup (app (animate s env)) \<noteq> None) = (markerGroup s \<noteq> None)"
    by simp_all
  show ?thesis unfolding poseResolved_def a v g ..
qed

lemma lost_stays_lost:
  assumes "\<not> isMarkerDetected s" and "\<not> poseResolved s env"
  shows "events (animate s env) = [] \<and> \<not> isMarkerDetected (app (animate s env))"
proof -
  from assms(1) have "s\<lparr>isMarkerDetected := False\<rparr> = s" by simp
  with lost_tick_ar[of s env] animate_events[of s env] assms show ?thesis
    by (simp add: transitionEvents_def)
qed

lemma lost_run_quiet:
  assumes "\<not> isMarkerDetected s" and "list_all (\<lambda>env. \<not> poseResolved s env) envs"
  shows "concat (map (\<lambda>(b, evs, a). evs) (arTrace s envs)) = []"
  using assms
proof (induction envs arbitrary: s)
  case Nil
  show ?case by simp
next
  case (Cons env envs)
  from Cons.prems have q: "events (animate s env) = []"
    and l: "\<not> isMarkerDetected (app (animate s env))"
    using lost_stays_lost[of s env] by simp_all
  from Cons.prems(2) have "list_all (\<lambda>e. \<not> poseResolved (app (animate s env)) e) envs"
    by (simp add: poseResolved_static)
  from Cons.IH[OF l this] q show ?case by (simp add: Let_def)
qed

lemma heuristic_lost_stays_lost:
  assumes "\<not> isTracking h" and "case i of Some (Found rv tv) \<Rightarrow> False | _ \<Rightarrow> True"
  shows "fst (snd (heuristicTick rot h i)) = [] \<and> \<not> isTracking (fst (heuristicTick rot h i))"
  using assms
  by (auto simp: heuristicTick_def detectMarker_def split: option.splits ratioResult.splits)

lemma heuristic_lost_run_quiet:
  assumes "\<not> isTracking h"
    and "list_all (\<lambda>i. case i of Some (Found rv tv) \<Rightarrow> False | _ \<Rightarrow> True) is"
  shows "concat (map (\<lambda>(b, evs, a). evs) (heuristicTrace rot h is)) = []"
  using assms
proof (induction "is" arbitrary: h)
  case Nil
  show ?case by simp
next
  case (Cons i "is")
  from Cons.prems have q: "fst (snd (heuristicTick rot h i)) = []"
    and l: "\<not> isTracking (fst (heuristicTick rot h i))"
    using heuristic_lost_stays_lost[of h i rot] by simp_all
  from Cons.prems(2) have "list_all (\<lambda>i. case i of Some (Found rv tv) \<Rightarrow> False | _ \<Rightarrow> True) is"
    by simp
  from Cons.IH[OF l this] q show ?case by (simp add: Let_def case_prod_unfold)
qed

text \<open>
  Claim C2. In both applications, for every start state and every sequence of ticks,
  the events a tick fires are exactly those of its change of the tracking flag: one
  MarkerFound when it goes from lost to tracking, one MarkerLost when it goes from
  tracking to lost, none when it stays. In particular, from a lost state (such as the
  state after a MarkerLost) a run of ticks none of which resolves a marker fires no event
  at all.
\<close>

theorem tracking_events_exactly_once:
  "map (\<lambda>(b, evs, a). evs) (heuristicTrace rot h is) =
     map (\<lambda>(b, evs, a). transitionEvents b a) (heuristicTrace rot h is) \<and>
   map (\<lambda>(b, evs, a). evs) (arTrace s envs) =
     map (\<lambda>(b, evs, a). transitionEvents b a) (arTrace s envs) \<and>
   (\<not> isTracking h \<and> list_all (\<lambda>i. case i of Some (Found rv tv) \<Rightarrow> False | _ \<Rightarrow> True) is \<longrightarrow>
      concat (map (\<lambda>(b, evs, a). evs) (heuristicTrace rot h is)) = []) \<and>
   (\<not> isMarkerDetected s \<and> list_all (\<lambda>env. \<not> poseResolved s env) envs \<longrightarrow>
      concat (map (\<lambda>(b, evs, a). evs) (arTrace s envs)) = [])"
  using heuristicTrace_events[of rot h "is"] arTrace_events[of s envs]
    heuristic_lost_run_quiet[of h "is" rot] lost_run_quiet[of s envs]
  by blast

text \<open>
  Two runs from the start states, through acquisition, loss, repeated failure and
  re-acquisition, and two quiet runs of failing ticks from the lost state.
\<close>

theorem tracking_events_exactly_once_witness:
  "arTrace arStart [emptyEnv, markerEnv, markerEnv, failedTransformEnv, emptyEnv, throwingEnv, markerEnv] =
     [(False, [], False), (False, [MarkerFound], True), (True, [], True),
      (True, [MarkerLost], False), (False, [], False), (False, [], False),
      (False, [MarkerFound], True)] \<and>
   heuristicTrace three160 heuristicStart
       [Some NotFound, Some nanDetection, Some nanDetection, None, Some NotFound, Some NotFound] =
     [(False, [], False), (False, [MarkerFound], True), (True, [], True), (True, [], True),
      (True, [MarkerLost], False), (False, [], False)] \<and>
   \<not> isMarkerDetected arStart \<and>
   list_all (\<lambda>env. \<not> poseResolved arStart env) [emptyEnv, failedTransformEnv, throwingEnv] \<and>
   concat (map (\<lambda>(b, evs, a). evs) (arTrace arStart [emptyEnv, failedTransformEnv, throwingEnv])) = [] \<and>
   \<not> isTracking heuristicStart \<and>
   concat (map (\<lambda>(b, evs, a). evs) (heuristicTrace three160 heuristicStart [None, Some NotFound])) = []"
proof -
  have flags: "arTrace arStart [emptyEnv, markerEnv, markerEnv, failedTransformEnv, emptyEnv, throwingEnv, markerEnv] =
     [(False, [], False), (False, [MarkerFound], True), (True, [], True),
      (True, [MarkerLost], False), (False, [], False), (False, [], False),
      (False, [MarkerFound], True)]"
    by code_simp
  have hflags: "heuristicTrace three160 heuristicStart
       [Some NotFound, Some nanDetection, Some nanDetection, None, Some NotFound, Some NotFound] =
     [(False, [], False), (False, [MarkerFound], True), (True, [], True), (True, [], True),
      (True, [MarkerLost], False), (False, [], False)]"
    by code_simp
  have l: "\<not> isMarkerDetected arStart" "\<not> isTracking heuristicStart"
    by (simp_all add: arStart_def heuristicStart_def)
  have q: "list_all (\<lambda>env. \<not> poseResolved arStart env) [emptyEnv, failedTransformEnv, throwingEnv]"
    by code_simp
  have hq: "list_all (\<lambda>i. case i of Some (Found rv tv) \<Rightarrow> False | _ \<Rightarrow> True) [None, Some NotFound]"
    by simp
  note t = tracking_events_exactly_once[of three160 heuristicStart "[None, Some NotFound]"
      arStart "[emptyEnv, failedTransformEnv, throwingEnv]"]
  from t l q have c1: "concat (map (\<lambda>(b, evs, a). evs)
      (arTrace arStart [emptyEnv, failedTransformEnv, throwingEnv])) = []" by blast
  from t l hq have c2: "concat (map (\<lambda>(b, evs, a). evs)
      (heuristicTrace three160 heuristicStart [None, Some NotFound])) = []" by blast
  from flags hflags l q c1 c2 show ?thesis by blast
qed

section \<open>The invariants of the AR.js application\<close>

lemma initialised_inv: "initialised s \<Longrightarrow> trackingInv s"
  by (auto simp: initialised_def trackingInv_def meshMatchesFlag_def split: option.splits)

lemma giveUpMarker_inv: "trackingInv s \<Longrightarrow> trackingInv (fst (giveUpMarker s g))"
  by (auto simp: giveUpMarker_def trackingInv_def meshMatchesFlag_def onMarkerLost_def
      pauseVideo_visible split: option.splits)

lemma applyTransform_inv:
  "trackingInv s \<Longrightarrow> trackingInv (fst (applyTransform s g env))"
  using giveUpMarker_inv[of s g]
  by (auto simp: applyTransform_def trackingInv_def meshMatchesFlag_def onMarkerFound_def
      playVideo_visible Let_def split: option.splits sum.splits prod.splits)

lemma noMarkers_inv: "trackingInv s \<Longrightarrow> trackingInv (fst (noMarkers s))"
  by (auto simp: noMarkers_def trackingInv_def meshMatchesFlag_def onMarkerLost_def
      pauseVideo_visible Let_def split: option.splits)

lemma processFrame_inv: "trackingInv s \<Longrightarrow> trackingInv (fst (processFrame s env))"
  using applyTransform_inv[of s _ env] noMarkers_inv[of s]
  by (auto simp: processFrame_def Let_def case_prod_unfold split: option.splits sum.splits)

lemma trackingInv_cong:
  "videoMesh s' = videoMesh s \<Longrightarrow> markerGroup s' = markerGroup s \<Longrightarrow>
   isMarkerDetected s' = isMarkerDetected s \<Longrightarrow> trackingInv s' = trackingInv s"
  by (simp add: trackingInv_def meshMatchesFlag_def split: option.split)

lemma animate_inv: "trackingInv s \<Longrightarrow> trackingInv (app (animate s env))"
proof -
  assume "trackingInv s"
  then have "trackingInv (fst (processFrame s env))" by (rule processFrame_inv)
  moreover have "trackingInv (app (animate s env)) = trackingInv (fst (processFrame s env))"
    by (rule trackingInv_cong)
      (simp_all add: animate_def updateFPS_def Let_def case_prod_unfold split: option.split)
  ultimately show ?thesis by simp
qed

lemma finalApp_inv: "trackingInv s \<Longrightarrow> trackingInv (finalApp s envs)"
  by (induction envs arbitrary: s) (simp_all add: animate_inv)

lemma giveUpMarker_mesh: "meshMatchesFlag s \<Longrightarrow> meshMatchesFlag (fst (giveUpMarker s g))"
  by (auto simp: giveUpMarker_def meshMatchesFlag_def onMarkerLost_def pauseVideo_visible
      split: option.splits)

lemma applyTransform_mesh:
  "meshMatchesFlag s \<Longrightarrow> meshMatchesFlag (fst (applyTransform s g env))"
  using giveUpMarker_mesh[of s g]
  by (auto simp: applyTransform_def meshMatchesFlag_def onMarkerFound_def
      playVideo_visible Let_def split: option.splits sum.splits prod.splits)

lemma noMarkers_mesh: "meshMatchesFlag s \<Longrightarrow> meshMatchesFlag (fst (noMarkers s))"
  by (auto simp: noMarkers_def meshMatchesFlag_def onMarkerLost_def
      pauseVideo_visible Let_def split: option.splits)

lemma processFrame_mesh: "meshMatchesFlag s \<Longrightarrow> meshMatchesFlag (fst (processFrame s env))"
  using applyTransform_mesh[of s _ env] noMarkers_mesh[of s]
  by (auto simp: processFrame_def Let_def case_prod_unfold split: option.splits sum.splits)

lemma animate_mesh_fields:
  "videoMesh (app (animate s env)) = videoMesh (fst (processFrame s env))"
  by (simp add: animate_def updateFPS_def Let_def case_prod_unfold split: option.split)

lemma animate_mesh: "meshMatchesFlag s \<Longrightarrow> meshMatchesFlag (app (animate s env))"
  using processFrame_mesh[of s env]
  by (simp add: meshMatchesFlag_def animate_mesh_fields animate_flag split: option.splits)

lemma finalApp_mesh: "meshMatchesFlag s \<Longrightarrow> meshMatchesFlag (finalApp s envs)"
  by (induction envs arbitrary: s) (simp_all add: animate_mesh)

lemma initialised_mesh: "initialised s \<Longrightarrow> meshMatchesFlag s"
  by (auto simp: initialised_def meshMatchesFlag_def split: option.splits)

text \<open>
  Claim C10. In the AR.js application the video mesh is visible exactly when
  \<open>isMarkerDetected\<close> holds: this holds in the state \<open>init\<close> leaves, in every state the
  loop reaches from it, and every tick preserves it, whatever the tick's outcome
  (MarkerFound, MarkerLost, no change, or a caught exception).
\<close>

theorem mesh_visible_iff_detected:
  "(initialised s \<longrightarrow> meshMatchesFlag s \<and> meshMatchesFlag (finalApp s envs)) \<and>
   (meshMatchesFlag s \<longrightarrow> meshMatchesFlag (app (animate s env)))"
  using initialised_mesh[of s] finalApp_mesh[of s envs] animate_mesh[of s env] by blast

text \<open>
  The start state is initialised; after a tick that finds the marker the flag is set and
  the mesh is visible.
\<close>

theorem mesh_visible_iff_detected_witness:
  "initialised arStart \<and> meshMatchesFlag arStart \<and>
   meshMatchesFlag (finalApp arStart [markerEnv, emptyEnv, failedTransformEnv]) \<and>
   meshMatchesFlag (app (animate arStart markerEnv)) \<and>
   isMarkerDetected (app (animate arStart markerEnv))"
proof -
  have i: "initialised arStart"
    by (simp add: initialised_def arStart_def pausedPlane_def)
  have d: "isMarkerDetected (app (animate arStart markerEnv))"
    by (simp add: animate_flag processFrame_def applyTransform_def markerEnv_def arStart_def
        identityElements_def onMarkerFound_flag)
  from mesh_visible_iff_detected[of arStart "[markerEnv, emptyEnv, failedTransformEnv]" markerEnv]
    i d show ?thesis by blast
qed

section \<open>Pose failures\<close>

lemma processFrame_failed:
  assumes "reachesTransform s env" and "transformFailed env" and "markerGroup s = Some g"
  shows "processFrame s env = (fst (giveUpMarker s g), snd (giveUpMarker s g), None)"
  using assms
  by (auto simp: reachesTransform_def transformFailed_def processFrame_def applyTransform_def
      case_prod_unfold Let_def split: sum.splits option.splits if_splits)

lemma processFrame_zero_markers:
  assumes "reachesTransform s env"
  shows "processFrame s (env\<lparr>getMarkerNum := Inr 0\<rparr>) = (fst (noMarkers s), snd (noMarkers s), None)"
  using assms
  by (auto simp: reachesTransform_def processFrame_def case_prod_unfold Let_def
      split: sum.splits option.splits if_splits)

lemma giveUp_like_noMarkers:
  assumes "trackingInv s" and "markerGroup s = Some g"
  shows "snd (giveUpMarker s g) = snd (noMarkers s) \<and>
         videoMesh (fst (giveUpMarker s g)) = videoMesh (fst (noMarkers s)) \<and>
         isMarkerDetected (fst (giveUpMarker s g)) = isMarkerDetected (fst (noMarkers s))"
  using assms
  by (auto simp: trackingInv_def giveUpMarker_def noMarkers_def Let_def onMarkerLost_def
      split: option.splits)

lemma onMarkerFound_group: "markerGroup (onMarkerFound s) = markerGroup s"
  by (simp add: onMarkerFound_def split: option.splits)

lemma processFrame_applied:
  assumes "reachesTransform s env" and "markerGroup s = Some g"
    and "getTransMatSquare env = Inr (True, arr)" and "length arr = 16"
  shows "markerGroup (fst (processFrame s env)) =
           Some (g\<lparr>groupMatrix := arr, groupVisible := True\<rparr>) \<and>
         isMarkerDetected (fst (processFrame s env)) \<and>
         fst (snd (processFrame s env)) = (if isMarkerDetected s then [] else [MarkerFound])"
  using assms
  by (auto simp: reachesTransform_def processFrame_def applyTransform_def Let_def
      onMarkerFound_group onMarkerFound_flag split: sum.splits option.splits)

lemma animate_group: "markerGroup (app (animate s env)) = markerGroup (fst (processFrame s env))"
  by (simp add: animate_def updateFPS_def case_prod_unfold Let_def split: option.splits)

lemma updateCameraPose_thrown:
  assumes "getInverse lib (calculateModelViewMatrix lib rv tv) = Inl e"
  shows "snd (updateCameraPose lib s rv tv) = Some e \<and>
         visible (arVideo (fst (updateCameraPose lib s rv tv))) = visible (arVideo s)"
  using assms by (simp add: updateCameraPose_def Let_def)

lemma detectMarker_thrown:
  assumes "getInverse lib (calculateModelViewMatrix lib rv tv) = Inl e"
  shows "snd (snd (detectMarker lib s (Found rv tv))) = Some e \<and>
         visible (arVideo (fst (detectMarker lib s (Found rv tv)))) = visible (arVideo s)"
  using updateCameraPose_thrown[OF assms]
  by (simp add: detectMarker_def case_prod_unfold Let_def heuristicMarkerFound_def)

text \<open>
  Claim C6 says that every malformed pose input, among them rotation and translation
  vectors with NaN components, yields "no pose" and is treated identically to
  marker-not-found for that tick. The heuristic application does not look at the vectors
  before it acts on the result: from its start state, whatever the rendering library
  does afterwards, a found detection whose translation vector starts with NaN starts
  tracking and fires MarkerFound, where a not-found result leaves the application lost
  and silent.
\<close>

theorem nan_pose_applied:
  "\<forall>lib. isTracking (fst (detectMarker lib heuristicStart nanDetection)) \<and>
         fst (snd (detectMarker lib heuristicStart nanDetection)) = [MarkerFound] \<and>
         \<not> isTracking (fst (detectMarker lib heuristicStart NotFound)) \<and>
         fst (snd (detectMarker lib heuristicStart NotFound)) = []"
  using detectMarker_found[of _ heuristicStart "[Num 0, Num 0, Num 0]" "[NaN, Num 0, Num 1]"]
  by (simp add: nanDetection_def) (simp add: detectMarker_def heuristicStart_def)

text \<open>
  Claim C6, amended. In the AR.js application, a tick that reaches the transform and
  gets none (the library call throws or reports failure) applies no pose: it lets no
  exception escape, ends with the marker not detected and fires MarkerLost exactly when
  the marker was detected before; in a state that satisfies the application's invariant
  (every state the loop reaches does, by \<open>finalApp_inv\<close>) its events, its video mesh and
  its flag are those of a tick with zero markers. A transform the library reports as
  found is applied as it is, whatever its sixteen elements hold: the tick lets no
  exception escape, ends with the marker detected, fires MarkerFound exactly when the
  marker was not detected before, and the marker group is visible with those elements as
  its matrix. The heuristic application validates nothing either: every found detection,
  whatever its vectors hold, ends with the application tracking and fires MarkerFound
  exactly when it was not tracking before; and when the library's \<open>getInverse\<close> throws
  on the matrix computed from the vectors, that exception leaves \<open>detectMarker\<close> and
  the plane's visibility is what it was.
\<close>

theorem malformed_pose:
  "(reachesTransform s env \<and> transformFailed env \<longrightarrow>
      thrown (animate s env) = None \<and> \<not> isMarkerDetected (app (animate s env)) \<and>
      events (animate s env) = (if isMarkerDetected s then [MarkerLost] else [])) \<and>
   (reachesTransform s env \<and> transformFailed env \<and> trackingInv s \<longrightarrow>
      events (animate s env) = events (animate s (env\<lparr>getMarkerNum := Inr 0\<rparr>)) \<and>
      videoMesh (app (animate s env)) = videoMesh (app (animate s (env\<lparr>getMarkerNum := Inr 0\<rparr>))) \<and>
      isMarkerDetected (app (animate s env)) =
        isMarkerDetected (app (animate s (env\<lparr>getMarkerNum := Inr 0\<rparr>)))) \<and>
   (reachesTransform s env \<and> markerGroup s = Some g \<and>
    getTransMatSquare env = Inr (True, arr) \<and> length arr = 16 \<longrightarrow>
      thrown (animate s env) = None \<and> isMarkerDetected (app (animate s env)) \<and>
      events (animate s env) = (if isMarkerDetected s then [] else [MarkerFound]) \<and>
      markerGroup (app (animate s env)) = Some (g\<lparr>groupMatrix := arr, groupVisible := True\<rparr>)) \<and>
   isTracking (fst (detectMarker lib h (Found rv tv))) \<and>
   fst (snd (detectMarker lib h (Found rv tv))) = (if isTracking h then [] else [MarkerFound]) \<and>
   (getInverse lib (calculateModelViewMatrix lib rv tv) = Inl e \<longrightarrow>
      snd (snd (detectMarker lib h (Found rv tv))) = Some e \<and>
      visible (arVideo (fst (detectMarker lib h (Found rv tv)))) = visible (arVideo h))"
proof -
  have T: "thrown (animate s env) = None"
    by (simp add: animate_def case_prod_unfold Let_def)
  have A: "\<not> isMarkerDetected (app (animate s env)) \<and>
      events (animate s env) = (if isMarkerDetected s then [MarkerLost] else [])"
    if r: "reachesTransform s env" and m: "transformFailed env"
  proof -
    from r obtain g' where g: "markerGroup s = Some g'" by (auto simp: reachesTransform_def)
    note pf = processFrame_failed[OF r m g]
    have "\<not> isMarkerDetected (app (animate s env))"
      unfolding animate_flag pf by (simp add: giveUpMarker_def onMarkerLost_flag)
    moreover have "events (animate s env) = (if isMarkerDetected s then [MarkerLost] else [])"
      unfolding animate_events_fst pf by (simp add: giveUpMarker_def)
    ultimately show ?thesis by simp
  qed
  have B: "events (animate s env) = events (animate s (env\<lparr>getMarkerNum := Inr 0\<rparr>)) \<and>
      videoMesh (app (animate s env)) = videoMesh (app (animate s (env\<lparr>getMarkerNum := Inr 0\<rparr>))) \<and>
      isMarkerDetected (app (animate s env)) =
        isMarkerDetected (app (animate s (env\<lparr>getMarkerNum := Inr 0\<rparr>)))"
    if r: "reachesTransform s env" and m: "transformFailed env" and i: "trackingInv s"
  proof -
    from r obtain g' where g: "markerGroup s = Some g'" by (auto simp: reachesTransform_def)
    note pf = processFrame_failed[OF r m g]
    note pz = processFrame_zero_markers[OF r]
    from giveUp_like_noMarkers[OF i g] show ?thesis
      unfolding animate_events_fst animate_mesh_fields animate_flag pf pz by simp
  qed
  have C: "isMarkerDetected (app (animate s env)) \<and>
      events (animate s env) = (if isMarkerDetected s then [] else [MarkerFound]) \<and>
      markerGroup (app (animate s env)) = Some (g\<lparr>groupMatrix := arr, groupVisible := True\<rparr>)"
    if r: "reachesTransform s env" and g: "markerGroup s = Some g"
      and t: "getTransMatSquare env = Inr (True, arr)" and n: "length arr = 16"
    using processFrame_applied[OF r g t n]
    unfolding animate_events_fst animate_flag animate_group by simp
  note H = detectMarker_found[of lib h rv tv]
  have E: "snd (snd (detectMarker lib h (Found rv tv))) = Some e \<and>
      visible (arVideo (fst (detectMarker lib h (Found rv tv)))) = visible (arVideo h)"
    if "getInverse lib (calculateModelViewMatrix lib rv tv) = Inl e"
    using detectMarker_thrown[OF that] .
  from T A B C H E show ?thesis by blast
qed

text \<open>
  A tracking application meets a transform the library reports as failed, and one whose
  retrieval throws; the application at its start meets a transform of which the library
  wrote ten elements, and one that is NaN throughout; the heuristic application at its
  start meets the NaN detection with the library whose \<open>getInverse\<close> throws.
\<close>

theorem malformed_pose_witness:
  "reachesTransform playingApp failedTransformEnv \<and> transformFailed failedTransformEnv \<and>
   trackingInv playingApp \<and>
   reachesTransform playingApp throwingEnv \<and> transformFailed throwingEnv \<and>
   events (animate playingApp failedTransformEnv) = [MarkerLost] \<and>
   events (animate playingApp throwingEnv) = [MarkerLost] \<and>
   \<not> isMarkerDetected (app (animate playingApp failedTransformEnv)) \<and>
   videoMesh (app (animate playingApp failedTransformEnv)) = videoMesh (app (animate playingApp emptyEnv)) \<and>
   reachesTransform arStart partialFillEnv \<and> reachesTransform arStart nanTransformEnv \<and>
   events (animate arStart partialFillEnv) = [MarkerFound] \<and>
   isMarkerDetected (app (animate arStart partialFillEnv)) \<and>
   events (animate arStart nanTransformEnv) = [MarkerFound] \<and>
   markerGroup (app (animate arStart nanTransformEnv)) =
     Some \<lparr>groupVisible = True, groupMatrix = replicate 16 NaN\<rparr> \<and>
   getInverse three160 (calculateModelViewMatrix three160 [Num 0, Num 0, Num 0] [NaN, Num 0, Num 1]) =
     Inl (JsError ''this.camera.matrixWorld.getInverse is not a function'') \<and>
   snd (snd (detectMarker three160 heuristicStart nanDetection)) =
     Some (JsError ''this.camera.matrixWorld.getInverse is not a function'') \<and>
   \<not> visible (arVideo (fst (detectMarker three160 heuristicStart nanDetection)))"
proof -
  have r1: "reachesTransform playingApp failedTransformEnv"
    and r2: "reachesTransform playingApp throwingEnv"
    and r3: "reachesTransform arStart partialFillEnv"
    and r4: "reachesTransform arStart nanTransformEnv"
    by (simp_all add: reachesTransform_def playingApp_def arStart_def failedTransformEnv_def
        throwingEnv_def partialFillEnv_def nanTransformEnv_def markerEnv_def)
  have m1: "transformFailed failedTransformEnv" and m2: "transformFailed throwingEnv"
    by (simp_all add: transformFailed_def failedTransformEnv_def throwingEnv_def markerEnv_def)
  have i: "trackingInv playingApp"
    by (simp add: trackingInv_def meshMatchesFlag_def playingApp_def arStart_def)
  have d: "isMarkerDetected playingApp" "\<not> isMarkerDetected arStart"
    by (simp_all add: playingApp_def arStart_def)
  have e: "failedTransformEnv\<lparr>getMarkerNum := Inr 0\<rparr> =
      emptyEnv\<lparr>getTransMatSquare := Inr (False, replicate 16 (Num 0))\<rparr>"
    by (simp add: failedTransformEnv_def emptyEnv_def)
  have z: "animate playingApp (emptyEnv\<lparr>getTransMatSquare := t\<rparr>) = animate playingApp emptyEnv" for t
    by (simp add: animate_def processFrame_def emptyEnv_def markerEnv_def Let_def case_prod_unfold)
  have g: "markerGroup arStart = Some \<lparr>groupVisible = True, groupMatrix = identityElements\<rparr>"
    by (simp add: arStart_def)
  have t3: "getTransMatSquare partialFillEnv =
      Inr (True, take 10 identityElements @ replicate 6 (Num 0))"
    and n3: "length (take 10 identityElements @ replicate 6 (Num 0)) = 16"
    and t4: "getTransMatSquare nanTransformEnv = Inr (True, replicate 16 NaN)"
    and n4: "length (replicate 16 NaN :: jsnum list) = 16"
    by (simp_all add: partialFillEnv_def nanTransformEnv_def identityElements_def)
  have k: "getInverse three160 (calculateModelViewMatrix three160 [Num 0, Num 0, Num 0] [NaN, Num 0, Num 1]) =
      Inl (JsError ''this.camera.matrixWorld.getInverse is not a function'')"
    by (simp add: three160_def)
  have v: "\<not> visible (arVideo heuristicStart)"
    by (simp add: heuristicStart_def pausedPlane_def)
  note f = malformed_pose[of playingApp failedTransformEnv _ _ three160 heuristicStart
      "[Num 0, Num 0, Num 0]" "[NaN, Num 0, Num 1]"
      "JsError ''this.camera.matrixWorld.getInverse is not a function''"]
  note th = malformed_pose[of playingApp throwingEnv]
  note pf = malformed_pose[of arStart partialFillEnv
      "\<lparr>groupVisible = True, groupMatrix = identityElements\<rparr>"
      "take 10 identityElements @ replicate 6 (Num 0)"]
  note nt = malformed_pose[of arStart nanTransformEnv
      "\<lparr>groupVisible = True, groupMatrix = identityElements\<rparr>" "replicate 16 NaN"]
  from f r1 m1 i d e z
  have a1: "events (animate playingApp failedTransformEnv) = [MarkerLost] \<and>
      \<not> isMarkerDetected (app (animate playingApp failedTransformEnv)) \<and>
      videoMesh (app (animate playingApp failedTransformEnv)) = videoMesh (app (animate playingApp emptyEnv))"
    by simp
  from th r2 m2 d have a2: "events (animate playingApp throwingEnv) = [MarkerLost]" by simp
  from pf r3 g t3 n3 d
  have a3: "events (animate arStart partialFillEnv) = [MarkerFound] \<and>
      isMarkerDetected (app (animate arStart partialFillEnv))"
    by simp
  from nt r4 g t4 n4 d
  have a4: "events (animate arStart nanTransformEnv) = [MarkerFound] \<and>
      markerGroup (app (animate arStart nanTransformEnv)) =
        Some \<lparr>groupVisible = True, groupMatrix = replicate 16 NaN\<rparr>"
    by simp
  from f k v
  have a5: "snd (snd (detectMarker three160 heuristicStart nanDetection)) =
      Some (JsError ''this.camera.matrixWorld.getInverse is not a function'') \<and>
      \<not> visible (arVideo (fst (detectMarker three160 heuristicStart nanDetection)))"
    by (simp add: nanDetection_def)
  from r1 r2 r3 r4 m1 m2 i k a1 a2 a3 a4 a5 show ?thesis by blast
qed

section \<open>Playback on loss\<close>

text \<open>
  Claim C7. \<open>onMarkerLost\<close> of the AR.js application hides the mesh and pauses its video,
  and the video's \<open>currentTime\<close> is what it was; a following \<open>onMarkerFound\<close> shows the
  mesh and resumes the video at that same position.
\<close>

theorem lost_keeps_position:
  assumes "videoMesh s = Some m" and "userDataVideo m = Some v"
  shows "videoMesh (onMarkerLost s) =
           Some \<lparr>visible = False, userDataVideo = Some (v\<lparr>paused := True\<rparr>)\<rparr> \<and>
         currentTime (v\<lparr>paused := True\<rparr>) = currentTime v \<and>
         videoMesh (onMarkerFound (onMarkerLost s)) =
           Some \<lparr>visible = True, userDataVideo = Some (v\<lparr>paused := False\<rparr>)\<rparr> \<and>
         currentTime (v\<lparr>paused := False\<rparr>) = currentTime v"
  using assms
  by (cases m; cases v) (auto simp: onMarkerLost_def onMarkerFound_def pauseVideo_def playVideo_def)

text \<open>
  A video playing at 12.5 seconds is paused and resumed at 12.5 seconds; \<open>stopVideo\<close>,
  which the handler does not call, would have reset it to 0.
\<close>

theorem lost_keeps_position_witness:
  "videoMesh (onMarkerLost playingApp) =
     Some \<lparr>visible = False, userDataVideo = Some \<lparr>paused = True, currentTime = 25 / 2\<rparr>\<rparr> \<and>
   videoMesh (onMarkerFound (onMarkerLost playingApp)) =
     Some \<lparr>visible = True, userDataVideo = Some \<lparr>paused = False, currentTime = 25 / 2\<rparr>\<rparr> \<and>
   map_option stopVideo (videoMesh playingApp) =
     Some \<lparr>visible = True, userDataVideo = Some \<lparr>paused = True, currentTime = 0\<rparr>\<rparr>"
proof -
  have m: "videoMesh playingApp =
      Some \<lparr>visible = True, userDataVideo = Some \<lparr>paused = False, currentTime = 25 / 2\<rparr>\<rparr>"
    by (simp add: playingApp_def)
  have v: "userDataVideo \<lparr>visible = True, userDataVideo = Some \<lparr>paused = False, currentTime = 25 / 2\<rparr>\<rparr>
      = Some \<lparr>paused = False, currentTime = 25 / 2\<rparr>" by simp
  from lost_keeps_position[OF m v] m show ?thesis by (simp add: stopVideo_def)
qed

section \<open>The asset cache\<close>

text \<open>
  Claim C8. A second \<open>loadVideoTexture\<close> for the same name, issued right after the
  first and before anything settles, returns what the first returned (the same in-flight
  promise, or the same cached asset), changes nothing and so starts no decode. When the
  in-flight promise of a name settles with success the asset of that decode is cached
  under the name, and a call for a cached name returns the cached asset and changes
  nothing.
\<close>

theorem load_idempotent:
  "loadVideoTexture (snd (loadVideoTexture L url name)) url' name =
     (fst (loadVideoTexture L url name), snd (loadVideoTexture L url name)) \<and>
   decodes (snd (loadVideoTexture (snd (loadVideoTexture L url name)) url' name)) =
     decodes (snd (loadVideoTexture L url name)) \<and>
   (awaiting L p = Some name \<longrightarrow> loadedAssets (promiseSettled L p True) name = Some (decoded p)) \<and>
   (loadedAssets L name = Some a \<longrightarrow> loadVideoTexture L url name = (Fulfilled a, L))"
  by (auto simp: loadVideoTexture_def promiseSettled_def Let_def split: option.splits)

text \<open>
  Two calls on a new loader share promise 0 and one decode; after it settles, a third
  call gets the asset of decode 0.
\<close>

theorem load_idempotent_witness:
  "fst (loadVideoTexture newLoader ''/videos/rickroll.mp4'' ''rickroll'') = Settles 0 \<and>
   fst (loadVideoTexture (snd (loadVideoTexture newLoader ''/videos/rickroll.mp4'' ''rickroll''))
          ''/videos/rickroll.mp4'' ''rickroll'') = Settles 0 \<and>
   decodes (snd (loadVideoTexture (snd (loadVideoTexture newLoader ''/videos/rickroll.mp4'' ''rickroll''))
          ''/videos/rickroll.mp4'' ''rickroll'')) = [(0, ''/videos/rickroll.mp4'', ''rickroll'')] \<and>
   awaiting (snd (loadVideoTexture newLoader ''/videos/rickroll.mp4'' ''rickroll'')) 0 = Some ''rickroll'' \<and>
   loadVideoTexture
       (promiseSettled (snd (loadVideoTexture newLoader ''/videos/rickroll.mp4'' ''rickroll'')) 0 True)
       ''/videos/rickroll.mp4'' ''rickroll'' =
     (Fulfilled (decoded 0),
      promiseSettled (snd (loadVideoTexture newLoader ''/videos/rickroll.mp4'' ''rickroll'')) 0 True)"
proof -
  let ?L1 = "snd (loadVideoTexture newLoader ''/videos/rickroll.mp4'' ''rickroll'')"
  have r: "fst (loadVideoTexture newLoader ''/videos/rickroll.mp4'' ''rickroll'') = Settles 0"
    and d: "decodes ?L1 = [(0, ''/videos/rickroll.mp4'', ''rickroll'')]"
    and a: "awaiting ?L1 0 = Some ''rickroll''"
    by (simp_all add: loadVideoTexture_def newLoader_def)
  from load_idempotent[of newLoader "''/videos/rickroll.mp4''" "''rickroll''"
      "''/videos/rickroll.mp4''" 0 "decoded 0"]
    load_idempotent[of ?L1 "''/videos/rickroll.mp4''" "''rickroll''" "''/videos/rickroll.mp4''" 0 "decoded 0"]
    load_idempotent[of "promiseSettled ?L1 0 True" "''/videos/rickroll.mp4''" "''rickroll''"
      "''/videos/rickroll.mp4''" 0 "decoded 0"]
    r d a
  show ?thesis by simp
qed

section \<open>The render loop survives a failing tick\<close>

lemma runLoop_length: "length (runLoop s envs) = length envs"
  by (induction envs arbitrary: s) (simp_all add: Let_def animate_def case_prod_unfold)

text \<open>
  Claim C9. Whatever the canvas, the tracking library and the renderer do in a tick,
  throwing included, \<open>animate\<close> schedules the next tick, lets no exception escape and
  records that an error was logged exactly when it caught one (or had logged one
  before); so the loop runs one tick for every frame.
\<close>

theorem tick_never_throws:
  "scheduled (animate s env) \<and> thrown (animate s env) = None \<and>
   errorLogged (app (animate s env)) = (errorLogged s \<or> caught (animate s env) \<noteq> None) \<and>
   length (runLoop s envs) = length envs"
proof -
  have e: "errorLogged (fst (processFrame s env)) = errorLogged s"
    by (auto simp: processFrame_def applyTransform_def giveUpMarker_def noMarkers_def
      onMarkerFound_def onMarkerLost_def Let_def case_prod_unfold
      split: option.split sum.split)
  have "errorLogged (app (animate s env)) = (errorLogged s \<or> caught (animate s env) \<noteq> None)"
    using e by (auto simp: animate_def updateFPS_def Let_def case_prod_unfold split: option.splits)
  then show ?thesis
    by (simp add: runLoop_length) (simp add: animate_def case_prod_unfold Let_def)
qed

text \<open>
  A tick whose render call throws: the error is caught, the next tick is scheduled, and
  a loop of three frames, two of them failing, runs three ticks.
\<close>

theorem tick_never_throws_witness:
  "caught (animate arStart renderFailsEnv) = Some (JsError ''context lost'') \<and>
   thrown (animate arStart renderFailsEnv) = None \<and>
   scheduled (animate arStart renderFailsEnv) \<and>
   errorLogged (app (animate arStart renderFailsEnv)) \<and>
   length (runLoop arStart [renderFailsEnv, throwingEnv, markerEnv]) = 3"
proof -
  have c: "caught (animate arStart renderFailsEnv) = Some (JsError ''context lost'')"
    by code_simp
  from tick_never_throws[of arStart renderFailsEnv "[renderFailsEnv, throwingEnv, markerEnv]"] c
  show ?thesis by (simp del: runLoop.simps)
qed

end
